theory Spec2Isabelle
  imports Main "HOL-Library.Sublist" "HOL-Library.Char_ord" "HOL-Library.List_Lexorder"
begin

section \<open>Strings: the parts of Go's \<open>strings\<close>, \<open>unicode\<close> and \<open>regexp\<close> that goxz.go calls\<close>

text \<open>
  A Go string is a sequence of bytes; it is modelled as \<open>string\<close>, a list of 8-bit
  characters. Text outside ASCII appears as its UTF-8 bytes.
\<close>

definition HasPrefix :: "string \<Rightarrow> string \<Rightarrow> bool" where
  \<comment> \<open>\<open>len(s) >= len(prefix) && s[:len(prefix)] == prefix\<close>\<close>
  "HasPrefix s pfx = (length s \<ge> length pfx \<and> take (length pfx) s = pfx)"

definition HasSuffix :: "string \<Rightarrow> string \<Rightarrow> bool" where
  \<comment> \<open>\<open>len(s) >= len(suffix) && s[len(s)-len(suffix):] == suffix\<close>\<close>
  "HasSuffix s sfx = (length s \<ge> length sfx \<and> drop (length s - length sfx) s = sfx)"

text \<open>
  \<open>unicode.IsSpace\<close>: the code points with the White_Space property. \<open>spaceRunes\<close>
  lists their UTF-8 encodings: tab, line feed, vertical tab, form feed, carriage return,
  space, U+0085, U+00A0, U+1680, U+2000 to U+200A, U+2028, U+2029, U+202F, U+205F, U+3000.
\<close>

definition spaceRunes :: "string list" where
  "spaceRunes =
     [[CHR 0x09], [CHR 0x0A], [CHR 0x0B], [CHR 0x0C], [CHR 0x0D], [CHR 0x20],
      [CHR 0xC2, CHR 0x85], [CHR 0xC2, CHR 0xA0],
      [CHR 0xE1, CHR 0x9A, CHR 0x80],
      [CHR 0xE2, CHR 0x80, CHR 0x80], [CHR 0xE2, CHR 0x80, CHR 0x81],
      [CHR 0xE2, CHR 0x80, CHR 0x82], [CHR 0xE2, CHR 0x80, CHR 0x83],
      [CHR 0xE2, CHR 0x80, CHR 0x84], [CHR 0xE2, CHR 0x80, CHR 0x85],
      [CHR 0xE2, CHR 0x80, CHR 0x86], [CHR 0xE2, CHR 0x80, CHR 0x87],
      [CHR 0xE2, CHR 0x80, CHR 0x88], [CHR 0xE2, CHR 0x80, CHR 0x89],
      [CHR 0xE2, CHR 0x80, CHR 0x8A],
      [CHR 0xE2, CHR 0x80, CHR 0xA8], [CHR 0xE2, CHR 0x80, CHR 0xA9],
      [CHR 0xE2, CHR 0x80, CHR 0xAF],
      [CHR 0xE2, CHR 0x81, CHR 0x9F],
      [CHR 0xE3, CHR 0x80, CHR 0x80]]"

fun leadingSpace :: "string list \<Rightarrow> string \<Rightarrow> nat" where
  \<comment> \<open>the number of bytes of the white-space rune that \<open>s\<close> starts with, 0 when there is none\<close>
  "leadingSpace [] s = 0"
| "leadingSpace (r # rs) s = (if HasPrefix s r then length r else leadingSpace rs s)"

fun trailingSpace :: "string list \<Rightarrow> string \<Rightarrow> nat" where
  \<comment> \<open>the number of bytes of the white-space rune that \<open>s\<close> ends with, 0 when there is none\<close>
  "trailingSpace [] s = 0"
| "trailingSpace (r # rs) s = (if HasSuffix s r then length r else trailingSpace rs s)"

lemma leadingSpace_le: "leadingSpace rs s \<le> length s"
  by (induction rs) (auto simp: HasPrefix_def)

lemma trailingSpace_le: "trailingSpace rs s \<le> length s"
  by (induction rs) (auto simp: HasSuffix_def)

function TrimLeftSpace :: "string \<Rightarrow> string" where
  "TrimLeftSpace s =
     (let n = leadingSpace spaceRunes s in if n = 0 then s else TrimLeftSpace (drop n s))"
  by pat_completeness auto
termination
proof (relation "measure length")
  show "wf (measure length)" by simp
next
  fix s :: string and n :: nat
  assume n: "n = leadingSpace spaceRunes s" and nz: "n \<noteq> 0"
  have "n \<le> length s" using n leadingSpace_le by simp
  with nz show "(drop n s, s) \<in> measure length" by simp
qed

function TrimRightSpace :: "string \<Rightarrow> string" where
  "TrimRightSpace s =
     (let n = trailingSpace spaceRunes s
      in if n = 0 then s else TrimRightSpace (take (length s - n) s))"
  by pat_completeness auto
termination
proof (relation "measure length")
  show "wf (measure length)" by simp
next
  fix s :: string and n :: nat
  assume n: "n = trailingSpace spaceRunes s" and nz: "n \<noteq> 0"
  have "n \<le> length s" using n trailingSpace_le by simp
  with nz show "(take (length s - n) s, s) \<in> measure length" by simp
qed

definition TrimSpace :: "string \<Rightarrow> string" where
  \<comment> \<open>\<open>strings.TrimSpace\<close>: all leading and trailing white space removed\<close>
  "TrimSpace s = TrimRightSpace (TrimLeftSpace s)"

text \<open>
  \<open>separateReg = regexp.MustCompile(`\s*(?:\s+|,)\s*`)\<close>. In Go's regexp syntax
  \<open>\s\<close> is the ASCII class of tab, line feed, form feed, carriage return and space
  (no vertical tab). A match is found leftmost-first with greedy repetition: at a
  position it takes the whole run of \<open>\s\<close> characters and, when a comma follows, the
  comma and the run of \<open>\s\<close> after it; without a comma the run itself is the match, and
  must not be empty.
\<close>

definition reSpace :: "char \<Rightarrow> bool" where
  "reSpace c = (c = CHR 0x09 \<or> c = CHR 0x0A \<or> c = CHR 0x0C \<or> c = CHR 0x0D \<or> c = CHR 0x20)"

definition separateReg_match :: "string \<Rightarrow> nat option" where
  \<comment> \<open>the length of the match of \<open>separateReg\<close> that starts at the head of \<open>s\<close>\<close>
  "separateReg_match s =
     (let w = takeWhile reSpace s; r = dropWhile reSpace s
      in if r \<noteq> [] \<and> hd r = CHR '','' then Some (length w + 1 + length (takeWhile reSpace (tl r)))
         else if w = [] then None
         else Some (length w))"

lemma separateReg_match_pos: "separateReg_match s = Some n \<Longrightarrow> 0 < n \<and> n \<le> length s"
proof -
  assume a: "separateReg_match s = Some n"
  have l: "length (takeWhile reSpace s) + length (dropWhile reSpace s) = length s"
    by (metis length_append takeWhile_dropWhile_id)
  have t: "dropWhile reSpace s \<noteq> [] \<Longrightarrow>
      1 + length (takeWhile reSpace (tl (dropWhile reSpace s))) \<le> length (dropWhile reSpace s)"
    using length_takeWhile_le [of reSpace "tl (dropWhile reSpace s)"]
    by (cases "dropWhile reSpace s") auto
  from a l t show ?thesis
    by (auto simp: separateReg_match_def Let_def split: if_splits)
qed

function splitFrom :: "string \<Rightarrow> string \<Rightarrow> string list" where
  \<comment> \<open>\<open>acc\<close> is the piece read so far, reversed; the second argument is the text left\<close>
  "splitFrom acc [] = [rev acc]"
| "splitFrom acc (c # cs) =
     (case separateReg_match (c # cs) of
        None \<Rightarrow> splitFrom (c # acc) cs
      | Some n \<Rightarrow> rev acc # splitFrom [] (drop n (c # cs)))"
  by pat_completeness auto
termination
proof (relation "measure (\<lambda>(acc, s). length s)")
  show "wf (measure (\<lambda>(acc, s). length s))" by simp
next
  fix acc :: string and c :: char and cs :: string
  show "((c # acc, cs), (acc, c # cs)) \<in> measure (\<lambda>(acc, s). length s)" by simp
next
  fix acc :: string and c :: char and cs :: string and n :: nat
  assume "separateReg_match (c # cs) = Some n"
  then have "0 < n" using separateReg_match_pos by blast
  then show "(([], drop n (c # cs)), (acc, c # cs)) \<in> measure (\<lambda>(acc, s). length s)"
    by simp
qed

definition separateReg_Split :: "string \<Rightarrow> string list" where
  \<comment> \<open>\<open>separateReg.Split(s, -1)\<close>: the pieces of \<open>s\<close> between the successive matches;
      the empty string gives one empty piece\<close>
  "separateReg_Split s = (if s = [] then [[]] else splitFrom [] s)"


section \<open>Errors\<close>

datatype errno = EEXIST | ENOENT | ENOTDIR | ENOTEMPTY
  | PatternHasSeparator   \<comment> \<open>the cause of the error of \<open>os.MkdirTemp\<close> for a pattern with a slash\<close>

datatype flagFailure =
    BadSyntax string                \<comment> \<open>bad flag syntax: the argument\<close>
  | NotDefined string               \<comment> \<open>flag provided but not defined: the name\<close>
  | NeedsArgument string            \<comment> \<open>flag needs an argument: the name\<close>
  | InvalidBoolean string string    \<comment> \<open>invalid boolean value: the value, the name\<close>

datatype error =
    ErrHelp                         \<comment> \<open>\<open>flag.ErrHelp\<close>\<close>
  | FlagError flagFailure           \<comment> \<open>every other error of \<open>FlagSet.Parse\<close>\<close>
  | PathError string string errno   \<comment> \<open>\<open>*os.PathError\<close>: operation, path, cause\<close>
  | GetwdError                      \<comment> \<open>\<open>os.Getwd\<close> failed\<close>
  | RelError string string          \<comment> \<open>\<open>filepath.Rel\<close>: target cannot be made relative to base\<close>
  | BuildError string               \<comment> \<open>an error returned by a builder\<close>

section \<open>Platform resolution\<close>

record platform =
  os :: string
  arch :: string

fun archLoop :: "string \<Rightarrow> string list \<Rightarrow> platform list \<Rightarrow> platform list" where
  \<comment> \<open>the inner loop \<open>for _, arch := range archTargets\<close>\<close>
  "archLoop os1 [] platforms = platforms"
| "archLoop os1 (arch1 # archTargets) platforms =
     (if TrimSpace arch1 = [] then archLoop os1 archTargets platforms
      else archLoop os1 archTargets (platforms @ [\<lparr>os = os1, arch = arch1\<rparr>]))"

fun osLoop :: "string list \<Rightarrow> string list \<Rightarrow> platform list \<Rightarrow> platform list" where
  \<comment> \<open>the outer loop \<open>for _, os := range osTargets\<close>\<close>
  "osLoop [] archTargets platforms = platforms"
| "osLoop (os1 # osTargets) archTargets platforms =
     (if TrimSpace os1 = [] then osLoop osTargets archTargets platforms
      else osLoop osTargets archTargets (archLoop os1 archTargets platforms))"

definition platformKey :: "platform \<Rightarrow> string" where
  \<comment> \<open>\<open>key := pf.os + ":" + pf.arch\<close>\<close>
  "platformKey pf = os pf @ '':'' @ arch pf"

fun uniqLoop :: "platform list \<Rightarrow> (string \<rightharpoonup> unit) \<Rightarrow> platform list \<Rightarrow> platform list" where
  \<comment> \<open>the loop \<open>for _, pf := range platforms\<close> with the map \<open>seen\<close>\<close>
  "uniqLoop [] seen uniqPlatforms = uniqPlatforms"
| "uniqLoop (pf # platforms) seen uniqPlatforms =
     (let key = platformKey pf
      in case seen key of
           None \<Rightarrow> uniqLoop platforms (seen(key \<mapsto> ())) (uniqPlatforms @ [pf])
         | Some _ \<Rightarrow> uniqLoop platforms seen uniqPlatforms)"

definition resolvePlatforms :: "string \<Rightarrow> string \<Rightarrow> error + platform list" where
  "resolvePlatforms os1 arch1 =
     (let osTargets = separateReg_Split os1;
          archTargets = separateReg_Split arch1;
          platforms = osLoop osTargets archTargets []
      in Inr (uniqLoop platforms Map.empty []))"

subsection \<open>Vocabulary of the statements on platform resolution\<close>

definition tokens :: "string \<Rightarrow> string list" where
  \<comment> \<open>the token list of an input string: its pieces that are not blank\<close>
  "tokens s = filter (\<lambda>t. TrimSpace t \<noteq> []) (separateReg_Split s)"

definition separator :: "char \<Rightarrow> bool" where
  \<comment> \<open>the characters that \<open>separateReg\<close> matches: its white space and the comma\<close>
  "separator c = (reSpace c \<or> c = CHR '','')"

definition cartesian :: "string list \<Rightarrow> string list \<Rightarrow> platform list" where
  \<comment> \<open>the Cartesian product of two token lists, the first list varying slowest\<close>
  "cartesian oss archs = concat (map (\<lambda>a. map (\<lambda>b. \<lparr>os = a, arch = b\<rparr>) archs) oss)"

primrec firstSeen :: "'a list \<Rightarrow> 'a list" where
  \<comment> \<open>every element once, at the place of its first occurrence\<close>
  "firstSeen [] = []"
| "firstSeen (x # xs) = x # filter (\<lambda>y. y \<noteq> x) (firstSeen xs)"

primrec uniqFrom :: "string set \<Rightarrow> platform list \<Rightarrow> platform list" where
  "uniqFrom S [] = []"
| "uniqFrom S (pf # pfs) =
     (if platformKey pf \<in> S then uniqFrom S pfs
      else pf # uniqFrom (insert (platformKey pf) S) pfs)"


section \<open>Paths: the functions of \<open>path/filepath\<close> that goxz.go calls, on Unix\<close>

text \<open>
  The separator is the slash, the list separator is the colon, and there are no volume
  names. \<open>Clean\<close> is modelled on the elements of the path, following its documentation:
  empty elements and \<open>.\<close> elements are dropped, a \<open>..\<close> element removes the element before
  it, is dropped at the root, and is kept at the head of a path that is not rooted; the
  empty result is \<open>.\<close>.
\<close>

fun elements :: "string \<Rightarrow> string list" where
  \<comment> \<open>the pieces of a path between its slashes: \<open>strings.Split(path, "/")\<close>\<close>
  "elements [] = [[]]"
| "elements (c # cs) =
     (if c = CHR ''/'' then [] # elements cs
      else (case elements cs of e # es \<Rightarrow> (c # e) # es | [] \<Rightarrow> [[c]]))"

fun joinElements :: "string list \<Rightarrow> string" where
  \<comment> \<open>\<open>strings.Join(elems, "/")\<close>\<close>
  "joinElements [] = []"
| "joinElements [e] = e"
| "joinElements (e # es) = e @ ''/'' @ joinElements es"

definition cleanStep :: "bool \<Rightarrow> string list \<Rightarrow> string \<Rightarrow> string list" where
  \<comment> \<open>one element read by \<open>Clean\<close>; \<open>out\<close> holds the elements written so far, last first\<close>
  "cleanStep rooted out e =
     (if e = [] \<or> e = ''.'' then out
      else if e = ''..'' then
        (if out \<noteq> [] \<and> hd out \<noteq> ''..'' then tl out
         else if \<not> rooted then ''..'' # out
         else out)
      else e # out)"

definition Clean :: "string \<Rightarrow> string" where
  "Clean path =
     (if path = [] then ''.''
      else let rooted = (hd path = CHR ''/'');
               out = rev (foldl (cleanStep rooted) [] (elements path))
           in if rooted then ''/'' @ joinElements out
              else if out = [] then ''.''
              else joinElements out)"

fun Join :: "string list \<Rightarrow> string" where
  \<comment> \<open>\<open>filepath.Join\<close>: the elements from the first non-empty one on, joined and cleaned\<close>
  "Join [] = []"
| "Join (e # es) = (if e \<noteq> [] then Clean (joinElements (e # es)) else Join es)"

definition IsAbs :: "string \<Rightarrow> bool" where
  "IsAbs path = HasPrefix path ''/''"

definition Base :: "string \<Rightarrow> string" where
  \<comment> \<open>the last element of the path, trailing slashes removed first\<close>
  "Base path =
     (if path = [] then ''.''
      else let p = rev (dropWhile (\<lambda>c. c = CHR ''/'') (rev path));
               b = rev (takeWhile (\<lambda>c. c \<noteq> CHR ''/'') (rev p))
           in if b = [] then ''/'' else b)"

fun splitColon :: "string \<Rightarrow> string list" where
  \<comment> \<open>\<open>strings.Split(path, ":")\<close>\<close>
  "splitColon [] = [[]]"
| "splitColon (c # cs) =
     (if c = CHR '':'' then [] # splitColon cs
      else (case splitColon cs of e # es \<Rightarrow> (c # e) # es | [] \<Rightarrow> [[c]]))"

definition SplitList :: "string \<Rightarrow> string list" where
  "SplitList path = (if path = [] then [] else splitColon path)"

text \<open>
  \<open>filepath.Rel\<close>. \<open>relWalk\<close> is its loop: both paths are read element by element as long
  as the elements agree; it returns the element of the base at which they differ (empty
  when one of the paths ended first) and what is left of both paths from there.
\<close>

definition afterElement :: "string \<Rightarrow> string" where
  \<comment> \<open>the path after its first element and the slash that ends it\<close>
  "afterElement p = (case dropWhile (\<lambda>c. c \<noteq> CHR ''/'') p of [] \<Rightarrow> [] | _ # r \<Rightarrow> r)"

lemma length_afterElement: "p \<noteq> [] \<Longrightarrow> length (afterElement p) < length p"
proof -
  assume p: "p \<noteq> []"
  let ?d = "dropWhile (\<lambda>c. c \<noteq> CHR ''/'') p"
  have d: "length ?d \<le> length p" by (rule length_dropWhile_le)
  show ?thesis
  proof (cases ?d)
    case Nil
    have "afterElement p = []" unfolding afterElement_def Nil by simp
    with p show ?thesis by simp
  next
    case (Cons a r)
    have "afterElement p = r" unfolding afterElement_def Cons by simp
    moreover have "length r < length p" using d unfolding Cons by simp
    ultimately show ?thesis by simp
  qed
qed

function relWalk :: "string \<Rightarrow> string \<Rightarrow> string \<times> string \<times> string" where
  "relWalk base targ =
     (if base \<noteq> [] \<and> targ \<noteq> [] then
        (let be = takeWhile (\<lambda>c. c \<noteq> CHR ''/'') base;
             te = takeWhile (\<lambda>c. c \<noteq> CHR ''/'') targ
         in if te \<noteq> be then (be, base, targ)
            else relWalk (afterElement base) (afterElement targ))
      else ([], base, targ))"
  by pat_completeness auto
termination
proof (relation "measure (\<lambda>(b, t). length b)")
  show "wf (measure (\<lambda>(b, t). length b))" by simp
next
  fix base targ :: string
  assume "base \<noteq> [] \<and> targ \<noteq> []"
  then show "((afterElement base, afterElement targ), (base, targ)) \<in> measure (\<lambda>(b, t). length b)"
    by (simp add: length_afterElement)
qed

declare relWalk.simps [simp del]

definition Rel :: "string \<Rightarrow> string \<Rightarrow> error + string" where
  "Rel basepath targpath =
     (let base = Clean basepath; targ = Clean targpath
      in if targ = base then Inr ''.''
         else let base = (if base = ''.'' then [] else base);
                  baseSlashed = (base \<noteq> [] \<and> hd base = CHR ''/'');
                  targSlashed = (targ \<noteq> [] \<and> hd targ = CHR ''/'')
              in if baseSlashed \<noteq> targSlashed then Inl (RelError targpath basepath)
                 else (case relWalk base targ of (be, b, t) \<Rightarrow>
                   if be = ''..'' then Inl (RelError targpath basepath)
                   else if b \<noteq> [] then
                     Inr (''..'' @ concat (replicate (count_list b CHR ''/'') ''/..'')
                          @ (if t \<noteq> [] then ''/'' @ t else []))
                   else Inr t))"


section \<open>The world outside the program\<close>

text \<open>
  The file system is a table from absolute, clean paths to the kind of the node there;
  there are no permissions and no symbolic links, so an operation fails only for the
  shape of the tree (a missing node, a node in the way, a directory that is not empty).
  A path is resolved as the system does it, element by element from the root or from
  the working directory: every element, also \<open>.\<close> and \<open>..\<close>, is looked up in a directory
  that exists. The world also holds what the program reads from its environment and
  what it writes to its log.
\<close>

datatype FileMode = ModeRegular | ModeDir | ModeIrregular

definition IsRegular :: "FileMode \<Rightarrow> bool" where
  "IsRegular m = (m = ModeRegular)"

record FileInfo =
  Name :: string
  Mode :: FileMode

datatype logline =
    LogRemoving string       \<comment> \<open>\<open>log.Printf("removing %q", fpath)\<close>\<close>
  | LogWorkingDir string     \<comment> \<open>\<open>log.Printf("working dir: %s\n", gx.workDir)\<close>\<close>
  | LogError error           \<comment> \<open>\<open>log.Println(err)\<close>\<close>

record world =
  nodes :: "(string \<times> FileMode) list"   \<comment> \<open>the file system\<close>
  cwd :: "string option"                 \<comment> \<open>the working directory; \<open>None\<close> when \<open>os.Getwd\<close> fails\<close>
  GOPATH :: string                       \<comment> \<open>\<open>build.Default.GOPATH\<close>\<close>
  tempDir :: string                      \<comment> \<open>\<open>os.TempDir()\<close>\<close>
  suffixes :: "nat \<Rightarrow> int"              \<comment> \<open>the random numbers that \<open>ioutil.TempDir\<close> draws\<close>
  drawn :: nat                           \<comment> \<open>how many of them have been drawn\<close>
  logged :: "logline list"               \<comment> \<open>the lines written through \<open>log\<close>, oldest first\<close>

definition IsExist :: "error \<Rightarrow> bool" where
  \<comment> \<open>\<open>os.IsExist\<close>\<close>
  "IsExist err = (case err of PathError _ _ e \<Rightarrow> e = EEXIST | _ \<Rightarrow> False)"

definition Getwd :: "world \<Rightarrow> error + string" where
  "Getwd w = (case cwd w of None \<Rightarrow> Inl GetwdError | Some d \<Rightarrow> Inr d)"

definition Abs :: "string \<Rightarrow> world \<Rightarrow> error + string" where
  \<comment> \<open>\<open>filepath.Abs\<close>\<close>
  "Abs path w =
     (if IsAbs path then Inr (Clean path)
      else (case Getwd w of Inl err \<Rightarrow> Inl err | Inr wd \<Rightarrow> Inr (Join [wd, path])))"

definition parent :: "string \<Rightarrow> string" where
  \<comment> \<open>the directory of a key other than the root\<close>
  "parent p =
     (let d = rev (tl (dropWhile (\<lambda>c. c \<noteq> CHR ''/'') (rev p)))
      in if d = [] then ''/'' else d)"

definition child :: "string \<Rightarrow> string \<Rightarrow> string" where
  \<comment> \<open>the key of the node with the name \<open>e\<close> in the directory with the key \<open>d\<close>\<close>
  "child d e = (if d = ''/'' then d @ e else d @ ''/'' @ e)"

fun walk :: "(string \<times> FileMode) list \<Rightarrow> string \<Rightarrow> string list \<Rightarrow> errno + string" where
  \<comment> \<open>path resolution, one element at a time, from the node with the key \<open>cur\<close>: an
      element is looked up in a directory that exists\<close>
  "walk ns cur [] = Inr cur"
| "walk ns cur (e # es) =
     (case map_of ns cur of
        None \<Rightarrow> Inl ENOENT
      | Some m \<Rightarrow>
          if m \<noteq> ModeDir then Inl ENOTDIR
          else walk ns (if e = [] \<or> e = ''.'' then cur
                        else if e = ''..'' then parent cur
                        else child cur e) es)"

definition resolve :: "world \<Rightarrow> string \<Rightarrow> errno + string" where
  \<comment> \<open>the key that a path leads to, whether a node is there or not: the empty path leads
      nowhere, a path that begins with a slash is resolved from the root, any other path
      from the working directory\<close>
  "resolve w path =
     (if path = [] then Inl ENOENT
      else if IsAbs path then walk (nodes w) ''/'' (elements path)
      else (case cwd w of
              None \<Rightarrow> Inl ENOENT
            | Some wd \<Rightarrow> walk (nodes w) wd (elements path)))"

definition locate :: "world \<Rightarrow> string \<Rightarrow> string option" where
  \<comment> \<open>the key of a path in the table of nodes\<close>
  "locate w path = (case resolve w path of Inl e \<Rightarrow> None | Inr p \<Rightarrow> Some p)"

definition trimSlashes :: "string \<Rightarrow> string" where
  \<comment> \<open>the path without its trailing slashes, which the system allows on the name of a
      directory to make or to remove\<close>
  "trimSlashes path =
     (let p = rev (dropWhile (\<lambda>c. c = CHR ''/'') (rev path))
      in if p = [] \<and> path \<noteq> [] then ''/'' else p)"

definition lastElement :: "string \<Rightarrow> string" where
  \<comment> \<open>the path after its last slash: the name of a node in its directory\<close>
  "lastElement p = rev (takeWhile (\<lambda>c. c \<noteq> CHR ''/'') (rev p))"

definition entries :: "world \<Rightarrow> string \<Rightarrow> FileInfo list" where
  \<comment> \<open>the nodes directly inside the directory with key \<open>d\<close>, sorted by name\<close>
  "entries w d =
     sort_key Name
       (map (\<lambda>(p, m). \<lparr>Name = lastElement p, Mode = m\<rparr>)
          (filter (\<lambda>(p, m). p \<noteq> ''/'' \<and> parent p = d) (nodes w)))"

definition stat :: "world \<Rightarrow> string \<Rightarrow> string \<Rightarrow> error + string \<times> FileMode" where
  \<comment> \<open>the key and the kind of the node at a path, for the operation \<open>op\<close>\<close>
  "stat w op path =
     (case resolve w path of
        Inl e \<Rightarrow> Inl (PathError op path e)
      | Inr p \<Rightarrow> (case map_of (nodes w) p of
          None \<Rightarrow> Inl (PathError op path ENOENT)
        | Some m \<Rightarrow> Inr (p, m)))"

definition ReadDir :: "string \<Rightarrow> world \<Rightarrow> error + FileInfo list" where
  \<comment> \<open>\<open>ioutil.ReadDir\<close>: the entries of the directory, sorted by file name\<close>
  "ReadDir dirname w =
     (case stat w ''open'' dirname of
        Inl err \<Rightarrow> Inl err
      | Inr (p, m) \<Rightarrow>
          if m = ModeDir then Inr (entries w p)
          else Inl (PathError ''readdirent'' dirname ENOTDIR))"

definition Mkdir :: "string \<Rightarrow> world \<Rightarrow> error option \<times> world" where
  \<comment> \<open>\<open>os.Mkdir\<close>\<close>
  "Mkdir path w =
     (case resolve w (trimSlashes path) of
        Inl e \<Rightarrow> (Some (PathError ''mkdir'' path e), w)
      | Inr p \<Rightarrow>
          if map_of (nodes w) p \<noteq> None then (Some (PathError ''mkdir'' path EEXIST), w)
          else (case map_of (nodes w) (parent p) of
              None \<Rightarrow> (Some (PathError ''mkdir'' path ENOENT), w)
            | Some m \<Rightarrow>
                if m \<noteq> ModeDir then (Some (PathError ''mkdir'' path ENOTDIR), w)
                else (None, w\<lparr>nodes := nodes w @ [(p, ModeDir)]\<rparr>)))"

definition Remove :: "string \<Rightarrow> world \<Rightarrow> error option \<times> world" where
  \<comment> \<open>\<open>os.Remove\<close>: removes a file or an empty directory\<close>
  "Remove path w =
     (case stat w ''remove'' path of
        Inl err \<Rightarrow> (Some err, w)
      | Inr (p, m) \<Rightarrow>
          if m = ModeDir \<and> entries w p \<noteq> [] then (Some (PathError ''remove'' path ENOTEMPTY), w)
          else (None, w\<lparr>nodes := filter (\<lambda>(q, _). q \<noteq> p) (nodes w)\<rparr>))"

definition inside :: "string \<Rightarrow> string \<Rightarrow> bool" where
  \<comment> \<open>the key \<open>q\<close> is \<open>p\<close> or lies below it\<close>
  "inside p q = (q = p \<or> HasPrefix q (if p = ''/'' then p else p @ ''/''))"

definition endsWithDot :: "string \<Rightarrow> bool" where
  "endsWithDot path = (path = ''.'' \<or> HasSuffix path ''/.'')"

definition RemoveAll :: "string \<Rightarrow> world \<Rightarrow> world" where
  \<comment> \<open>\<open>os.RemoveAll\<close>: removes the path and everything below it. It removes nothing and
      returns no error when the path is empty or no node is there, and removes nothing
      and returns an error when the path ends in a dot or cannot be resolved. The
      program drops its result.\<close>
  "RemoveAll path w =
     (if path = [] \<or> endsWithDot path then w
      else (case resolve w (trimSlashes path) of
              Inl e \<Rightarrow> w
            | Inr p \<Rightarrow> w\<lparr>nodes := filter (\<lambda>(q, _). \<not> inside p q) (nodes w)\<rparr>))"

definition Chdir :: "string \<Rightarrow> world \<Rightarrow> error option \<times> world" where
  \<comment> \<open>\<open>os.Chdir\<close>\<close>
  "Chdir dir w =
     (case stat w ''chdir'' dir of
        Inl err \<Rightarrow> (Some err, w)
      | Inr (p, m) \<Rightarrow>
          if m = ModeDir then (None, w\<lparr>cwd := Some p\<rparr>)
          else (Some (PathError ''chdir'' dir ENOTDIR), w))"

definition Printf :: "logline \<Rightarrow> world \<Rightarrow> world" where
  \<comment> \<open>one line written through the package \<open>log\<close>\<close>
  "Printf l w = w\<lparr>logged := logged w @ [l]\<rparr>"

text \<open>
  \<open>ioutil.TempDir(dir, pattern)\<close> is \<open>os.MkdirTemp\<close>: in \<open>dir\<close> (in \<open>os.TempDir()\<close> when \<open>dir\<close>
  is empty) it makes a directory named by the pattern, with a random number in decimal
  digits in the place of the last star of the pattern, or at its end when it has no
  star. It returns the name as \<open>dir\<close>, a slash and the name in it, not cleaned. It tries
  names until \<open>os.Mkdir\<close> does not report that the name exists, 10000 times at most;
  \<open>tempDirLoop\<close> takes the number of tries left. When the name cannot be made because
  \<open>dir\<close> does not exist, the error is that of \<open>os.Stat(dir)\<close>.
\<close>

definition IsNotExist :: "error \<Rightarrow> bool" where
  \<comment> \<open>\<open>os.IsNotExist\<close>\<close>
  "IsNotExist err = (case err of PathError _ _ e \<Rightarrow> e = ENOENT | _ \<Rightarrow> False)"

definition digit :: "int \<Rightarrow> char" where
  "digit d = char_of (48 + d)"

function Uitoa :: "int \<Rightarrow> string" where
  \<comment> \<open>\<open>itoa.Uitoa\<close>: the number, which is not negative, in decimal digits\<close>
  "Uitoa n = (if n < 10 then [digit n] else Uitoa (n div 10) @ [digit (n mod 10)])"
  by pat_completeness auto
termination
  by (relation "measure nat") simp_all

declare Uitoa.simps [simp del]

definition nextRandom :: "world \<Rightarrow> string \<times> world" where
  \<comment> \<open>the next random number of 32 bits, in decimal digits\<close>
  "nextRandom w = (Uitoa (suffixes w (drawn w) mod 4294967296), w\<lparr>drawn := Suc (drawn w)\<rparr>)"

definition joinPath :: "string \<Rightarrow> string \<Rightarrow> string" where
  "joinPath dir name =
     (if dir \<noteq> [] \<and> last dir = CHR ''/'' then dir @ name else dir @ ''/'' @ name)"

definition prefixAndSuffix :: "string \<Rightarrow> error + string \<times> string" where
  \<comment> \<open>the pattern before and after its last star\<close>
  "prefixAndSuffix pattern =
     (if CHR ''/'' \<in> set pattern then Inl (PathError ''mkdirtemp'' pattern PatternHasSeparator)
      else if CHR ''*'' \<in> set pattern
        then Inr (rev (tl (dropWhile (\<lambda>c. c \<noteq> CHR ''*'') (rev pattern))),
                  rev (takeWhile (\<lambda>c. c \<noteq> CHR ''*'') (rev pattern)))
      else Inr (pattern, []))"

fun tempDirLoop :: "nat \<Rightarrow> string \<Rightarrow> string \<Rightarrow> string \<Rightarrow> world \<Rightarrow> (string \<times> error option) \<times> world" where
  "tempDirLoop 0 dir pfx sfx w =
     (([], Some (PathError ''mkdirtemp'' (dir @ ''/'' @ pfx @ ''*'' @ sfx) EEXIST)), w)"
| "tempDirLoop (Suc n) dir pfx sfx w =
     (case nextRandom w of (r, w1) \<Rightarrow>
        (case Mkdir (pfx @ r @ sfx) w1 of
           (None, w2) \<Rightarrow> ((pfx @ r @ sfx, None), w2)
         | (Some e, w2) \<Rightarrow>
             if IsExist e then tempDirLoop n dir pfx sfx w2
             else if IsNotExist e then
               (case stat w2 ''stat'' dir of
                  Inl e1 \<Rightarrow> if IsNotExist e1 then (([], Some e1), w2) else (([], Some e), w2)
                | Inr i \<Rightarrow> (([], Some e), w2))
             else (([], Some e), w2)))"

definition TempDir :: "string \<Rightarrow> string \<Rightarrow> world \<Rightarrow> (string \<times> error option) \<times> world" where
  "TempDir dir pattern w =
     (let dir = (if dir = [] then tempDir w else dir)
      in case prefixAndSuffix pattern of
           Inl err \<Rightarrow> (([], Some err), w)
         | Inr (pfx, sfx) \<Rightarrow> tempDirLoop 10000 dir (joinPath dir pfx) sfx w)"


section \<open>The command line\<close>

text \<open>
  The struct \<open>goxz\<close>, with the prefix \<open>gx_\<close> on its fields (\<open>os\<close> and \<open>arch\<close> are fields of
  \<open>platform\<close> too). The builder comes with the prefix \<open>bdr_\<close>.
\<close>

record goxz =
  gx_os :: string
  gx_arch :: string
  gx_name :: string
  gx_version :: string
  gx_dest :: string
  gx_output :: string
  gx_buildLdFlags :: string
  gx_buildTags :: string
  gx_zipAlways :: bool
  gx_work :: bool
  gx_pkgs :: "string list"
  gx_absPkgs :: "string list"
  gx_platforms :: "platform list"
  gx_projDir :: string
  gx_workDir :: string
  gx_resources :: "string list"

definition exitCodeOK :: int where "exitCodeOK = 0"
definition exitFlagErr :: int where "exitFlagErr = 1"
definition exitCodeErr :: int where "exitCodeErr = 2"

text \<open>
  The flags that \<open>parseArgs\<close> defines, each with the field it is bound to. \<open>StringVar\<close>
  and \<open>BoolVar\<close> store the default in the field when the flag is defined: \<open>zeroGoxz\<close> is
  \<open>&goxz{}\<close> after the eleven definitions, with \<open>"goxz"\<close> in \<open>dest\<close>.
\<close>

datatype flagKind = StringVar | BoolVar

definition formal :: "string \<Rightarrow> flagKind option" where
  "formal name =
     (if name \<in> set [''n'', ''d'', ''pv'', ''o'', ''os'', ''arch'', ''build-ldflags'',
                      ''build-tags'', ''C''] then Some StringVar
      else if name \<in> set [''zip'', ''work''] then Some BoolVar
      else None)"

definition zeroGoxz :: goxz where
  "zeroGoxz =
     \<lparr>gx_os = [], gx_arch = [], gx_name = [], gx_version = [], gx_dest = ''goxz'',
      gx_output = [], gx_buildLdFlags = [], gx_buildTags = [], gx_zipAlways = False,
      gx_work = False, gx_pkgs = [], gx_absPkgs = [], gx_platforms = [], gx_projDir = [],
      gx_workDir = [], gx_resources = []\<rparr>"

definition setString :: "string \<Rightarrow> string \<Rightarrow> goxz \<Rightarrow> goxz" where
  "setString name v gx =
     (if name = ''n'' then gx\<lparr>gx_name := v\<rparr>
      else if name = ''d'' then gx\<lparr>gx_dest := v\<rparr>
      else if name = ''pv'' then gx\<lparr>gx_version := v\<rparr>
      else if name = ''o'' then gx\<lparr>gx_output := v\<rparr>
      else if name = ''os'' then gx\<lparr>gx_os := v\<rparr>
      else if name = ''arch'' then gx\<lparr>gx_arch := v\<rparr>
      else if name = ''build-ldflags'' then gx\<lparr>gx_buildLdFlags := v\<rparr>
      else if name = ''build-tags'' then gx\<lparr>gx_buildTags := v\<rparr>
      else if name = ''C'' then gx\<lparr>gx_projDir := v\<rparr>
      else gx)"

definition setBool :: "string \<Rightarrow> bool \<Rightarrow> goxz \<Rightarrow> goxz" where
  "setBool name b gx =
     (if name = ''zip'' then gx\<lparr>gx_zipAlways := b\<rparr>
      else if name = ''work'' then gx\<lparr>gx_work := b\<rparr>
      else gx)"

definition ParseBool :: "string \<Rightarrow> bool option" where
  \<comment> \<open>\<open>strconv.ParseBool\<close>\<close>
  "ParseBool s =
     (if s \<in> set [''1'', ''t'', ''T'', ''TRUE'', ''true'', ''True''] then Some True
      else if s \<in> set [''0'', ''f'', ''F'', ''FALSE'', ''false'', ''False''] then Some False
      else None)"

text \<open>
  \<open>FlagSet.Parse\<close> with \<open>ContinueOnError\<close>: the loop over \<open>parseOne\<close>. It returns the
  struct with the flags stored and the arguments left (\<open>fs.Args()\<close>), or the first error.
  What the package prints to \<open>errStream\<close> on an error is not modelled.
\<close>

fun Parse :: "string list \<Rightarrow> goxz \<Rightarrow> error + goxz \<times> string list" where
  "Parse [] gx = Inr (gx, [])"
| "Parse (s # args) gx =
     (if length s < 2 \<or> hd s \<noteq> CHR ''-'' then Inr (gx, s # args)
      else let numMinuses = (if s ! 1 = CHR ''-'' then 2 else 1 :: nat)
           in if numMinuses = 2 \<and> length s = 2 then Inr (gx, args)
              else let name0 = drop numMinuses s
                   in if name0 = [] \<or> hd name0 = CHR ''-'' \<or> hd name0 = CHR ''=''
                      then Inl (FlagError (BadSyntax s))
                      else let name = hd name0 # takeWhile (\<lambda>c. c \<noteq> CHR ''='') (tl name0);
                               after = dropWhile (\<lambda>c. c \<noteq> CHR ''='') (tl name0);
                               hasValue = (after \<noteq> []);
                               val = tl after
                           in case formal name of
                                None \<Rightarrow>
                                  if name = ''help'' \<or> name = ''h'' then Inl ErrHelp
                                  else Inl (FlagError (NotDefined name))
                              | Some BoolVar \<Rightarrow>
                                  if hasValue then
                                    (case ParseBool val of
                                       None \<Rightarrow> Inl (FlagError (InvalidBoolean val name))
                                     | Some b \<Rightarrow> Parse args (setBool name b gx))
                                  else Parse args (setBool name True gx)
                              | Some StringVar \<Rightarrow>
                                  if hasValue then Parse args (setString name val gx)
                                  else (case args of
                                          [] \<Rightarrow> Inl (FlagError (NeedsArgument name))
                                        | v # args' \<Rightarrow> Parse args' (setString name v gx)))"

definition parseArgs :: "string list \<Rightarrow> error + goxz" where
  "parseArgs args =
     (case Parse args zeroGoxz of
        Inl err \<Rightarrow> Inl err
      | Inr (gx, rest) \<Rightarrow>
          Inr (gx\<lparr>gx_pkgs := (if length rest = 0 then rest @ [''.''] else rest)\<rparr>))"

section \<open>The destination directory\<close>

definition getDest :: "goxz \<Rightarrow> string \<times> goxz" where
  "getDest gx =
     (let gx1 = (if gx_dest gx = [] then gx\<lparr>gx_dest := ''goxz''\<rparr> else gx)
      in (gx_dest gx1, gx1))"

fun removeLoop :: "string \<Rightarrow> FileInfo list \<Rightarrow> world \<Rightarrow> error option \<times> world" where
  \<comment> \<open>the loop \<open>for _, f := range files\<close> of \<open>setupDest\<close>\<close>
  "removeLoop dir [] w = (None, w)"
| "removeLoop dir (f # files) w =
     (if \<not> IsRegular (Mode f) then removeLoop dir files w
      else let n = Name f
           in if HasPrefix n ''.zip'' \<or> HasPrefix n ''.tar.gz'' then
                (let fpath = Join [dir, n];
                     w1 = Printf (LogRemoving fpath) w
                 in case Remove fpath w1 of
                      (Some err, w2) \<Rightarrow> (Some err, w2)
                    | (None, w2) \<Rightarrow> removeLoop dir files w2)
              else removeLoop dir files w)"

definition setupDest :: "string \<Rightarrow> world \<Rightarrow> error option \<times> world" where
  "setupDest dir w =
     (case Mkdir dir w of
        (None, w1) \<Rightarrow> (None, w1)
      | (Some err, w1) \<Rightarrow>
          if \<not> IsExist err then (Some err, w1)
          else (case ReadDir dir w1 of
                  Inl err \<Rightarrow> (Some err, w1)
                | Inr files \<Rightarrow> removeLoop dir files w1))"

section \<open>Packages\<close>

fun relFirst :: "string \<Rightarrow> string list \<Rightarrow> string \<Rightarrow> error + string" where
  \<comment> \<open>the loop \<open>for _, gosrc := range gosrcs\<close>: the package as the first root that is a
      prefix of \<open>absPath\<close> sees it, and \<open>pkg\<close> itself without such a root\<close>
  "relFirst absPath [] pkg = Inr pkg"
| "relFirst absPath (gosrc # gosrcs) pkg =
     (if HasPrefix absPath gosrc then
        (case Rel gosrc absPath of Inl err \<Rightarrow> Inl err | Inr p \<Rightarrow> Inr p)
      else relFirst absPath gosrcs pkg)"

fun pkgLoop :: "nat \<Rightarrow> string list \<Rightarrow> string \<Rightarrow> string list \<Rightarrow> string list \<Rightarrow> error + string list" where
  \<comment> \<open>the loop \<open>for i, pkg := range pkgs\<close>, from index \<open>i\<close> on\<close>
  "pkgLoop i [] projDir gosrcs stuff = Inr stuff"
| "pkgLoop i (pkg # pkgs) projDir gosrcs stuff =
     (case (if HasPrefix pkg ''.'' then relFirst (Clean (Join [projDir, pkg])) gosrcs pkg
            else Inr pkg) of
        Inl err \<Rightarrow> Inl err
      | Inr pkg1 \<Rightarrow> pkgLoop (Suc i) pkgs projDir gosrcs (stuff[i := pkg1]))"

definition gosrcsOf :: "string \<Rightarrow> string list" where
  \<comment> \<open>the first loop of \<open>goAbsPkgs\<close>: the \<open>src\<close> directory of every entry of GOPATH\<close>
  "gosrcsOf gopaths = map (\<lambda>gopath. Join [Clean gopath, ''src'']) (SplitList gopaths)"

definition goAbsPkgs :: "string list \<Rightarrow> string \<Rightarrow> world \<Rightarrow> error + string list" where
  "goAbsPkgs pkgs projDir w =
     pkgLoop 0 pkgs projDir (gosrcsOf (GOPATH w)) (replicate (length pkgs) [])"

section \<open>Resources\<close>

text \<open>
  \<open>resourceReg = regexp.MustCompile(`(?i)^(?:readme|license|credit|install)`)\<close>. Under
  \<open>(?i)\<close> a letter of the pattern matches every rune of its simple case-folding orbit:
  the lower-case letter, the upper-case letter and, for \<open>s\<close>, U+017F (long s) and, for
  \<open>k\<close>, U+212A (Kelvin sign), in their UTF-8 encodings.
\<close>

definition upper :: "char \<Rightarrow> char" where
  \<comment> \<open>of a lower-case ASCII letter\<close>
  "upper c = char_of (of_char c - (32::nat))"

definition foldOrbit :: "char \<Rightarrow> string list" where
  "foldOrbit c =
     [[c], [upper c]]
     @ (if c = CHR ''s'' then [[CHR 0xC5, CHR 0xBF]]
        else if c = CHR ''k'' then [[CHR 0xE2, CHR 0x84, CHR 0xAA]]
        else [])"

fun matchFold :: "string \<Rightarrow> string \<Rightarrow> bool" where
  \<comment> \<open>the text starts with the word, letter by letter up to case folding\<close>
  "matchFold [] s = True"
| "matchFold (c # word) s =
     list_ex (\<lambda>r. HasPrefix s r \<and> matchFold word (drop (length r) s)) (foldOrbit c)"

definition resourceReg_MatchString :: "string \<Rightarrow> bool" where
  "resourceReg_MatchString s =
     list_ex (\<lambda>word. matchFold word s) [''readme'', ''license'', ''credit'', ''install'']"

fun gatherLoop :: "string \<Rightarrow> FileInfo list \<Rightarrow> string list \<Rightarrow> string list" where
  \<comment> \<open>the loop \<open>for _, f := range files\<close> of \<open>gatherResources\<close>\<close>
  "gatherLoop dir [] ret = ret"
| "gatherLoop dir (f # files) ret =
     (if \<not> IsRegular (Mode f) then gatherLoop dir files ret
      else let n = Name f
           in if resourceReg_MatchString n \<and> \<not> HasSuffix n ''.go''
              then gatherLoop dir files (ret @ [Join [dir, n]])
              else gatherLoop dir files ret)"

definition gatherResources :: "string \<Rightarrow> world \<Rightarrow> error + string list" where
  "gatherResources dir w =
     (case ReadDir dir w of
        Inl err \<Rightarrow> Inl err
      | Inr files \<Rightarrow> Inr (gatherLoop dir files []))"


section \<open>Initialisation\<close>

text \<open>
  \<open>(gx *goxz) init()\<close> changes the struct and the world and returns an error or nil:
  the model returns the struct, the world and the error. An assignment
  \<open>gx.f, err = g(...)\<close> stores the zero value in \<open>gx.f\<close> when \<open>g\<close> fails. The body is
  written as its steps, in the order of the source.
\<close>

definition projDirStep :: "goxz \<Rightarrow> world \<Rightarrow> goxz \<times> error option" where
  \<comment> \<open>\<open>if gx.projDir == "" { gx.projDir, err = filepath.Abs(".") ... }\<close>\<close>
  "projDirStep gx w =
     (if gx_projDir gx = [] then
        (case Abs ''.'' w of
           Inl err \<Rightarrow> (gx\<lparr>gx_projDir := []\<rparr>, Some err)
         | Inr p \<Rightarrow> (gx\<lparr>gx_projDir := p\<rparr>, None))
      else (gx, None))"

definition nameStep :: "goxz \<Rightarrow> goxz" where
  \<comment> \<open>\<open>if gx.name == "" { gx.name = filepath.Base(gx.projDir) }\<close>\<close>
  "nameStep gx = (if gx_name gx = [] then gx\<lparr>gx_name := Base (gx_projDir gx)\<rparr> else gx)"

definition defaultsStep :: "goxz \<Rightarrow> goxz" where
  \<comment> \<open>fill the defaults: the two tests on \<open>gx.os\<close> and \<open>gx.arch\<close>\<close>
  "defaultsStep gx =
     (let gx1 = (if gx_os gx = [] then gx\<lparr>gx_os := ''linux darwin windows''\<rparr> else gx)
      in if gx_arch gx1 = [] then gx1\<lparr>gx_arch := ''amd64''\<rparr> else gx1)"

definition resolveStep :: "goxz \<Rightarrow> world \<Rightarrow> goxz \<times> error option" where
  \<comment> \<open>from \<open>gx.platforms, err = resolvePlatforms(gx.os, gx.arch)\<close> to the end of \<open>init\<close>\<close>
  "resolveStep gx w =
     (case resolvePlatforms (gx_os gx) (gx_arch gx) of
        Inl err \<Rightarrow> (gx\<lparr>gx_platforms := []\<rparr>, Some err)
      | Inr pfs \<Rightarrow>
          let gx1 = gx\<lparr>gx_platforms := pfs\<rparr>
          in case gatherResources (gx_projDir gx1) w of
               Inl err \<Rightarrow> (gx1\<lparr>gx_resources := []\<rparr>, Some err)
             | Inr res \<Rightarrow>
                 let gx2 = gx1\<lparr>gx_resources := res\<rparr>
                 in case goAbsPkgs (gx_pkgs gx2) (gx_projDir gx2) w of
                      Inl err \<Rightarrow> (gx2\<lparr>gx_absPkgs := []\<rparr>, Some err)
                    | Inr ps \<Rightarrow> (gx2\<lparr>gx_absPkgs := ps\<rparr>, None))"

definition init :: "goxz \<Rightarrow> world \<Rightarrow> goxz \<times> world \<times> error option" where
  "init gx w =
     (case projDirStep gx w of
        (gx1, Some err) \<Rightarrow> (gx1, w, Some err)
      | (gx1, None) \<Rightarrow>
          (case getDest (nameStep gx1) of
             (dest, gx2) \<Rightarrow>
               (case setupDest dest w of
                  (Some err, w1) \<Rightarrow> (gx2, w1, Some err)
                | (None, w1) \<Rightarrow>
                    (case resolveStep (defaultsStep gx2) w1 of
                       (gx3, err) \<Rightarrow> (gx3, w1, err)))))"

section \<open>Builders and the run\<close>

record builder =
  bdr_platform :: platform
  bdr_name :: string
  bdr_version :: string
  bdr_output :: string
  bdr_buildLdFlags :: string
  bdr_buildTags :: string
  bdr_pkgs :: "string list"
  bdr_zipAlways :: bool
  bdr_workDirBase :: string
  bdr_resources :: "string list"

definition builders :: "goxz \<Rightarrow> builder list" where
  "builders gx =
     map (\<lambda>pf. \<lparr>bdr_platform = pf, bdr_name = gx_name gx, bdr_version = gx_version gx,
                 bdr_output = gx_output gx, bdr_buildLdFlags = gx_buildLdFlags gx,
                 bdr_buildTags = gx_buildTags gx, bdr_pkgs = gx_absPkgs gx,
                 bdr_zipAlways = gx_zipAlways gx, bdr_workDirBase = gx_workDir gx,
                 bdr_resources = gx_resources gx\<rparr>)
       (gx_platforms gx)"

definition prepareWorkdir :: "goxz \<Rightarrow> world \<Rightarrow> goxz \<times> world \<times> error option" where
  "prepareWorkdir gx w =
     (case TempDir (gx_projDir gx) ''.goxz-'' w of
        ((tmpd, err), w1) \<Rightarrow> (gx\<lparr>gx_workDir := tmpd\<rparr>, w1, err))"

text \<open>
  The method \<open>(bdr *builder) build() (string, error)\<close> is defined in another file of the
  package. A run takes it as a parameter: a function from the builder and the world to
  the world after the build and what the call did, which is to return the path of an
  archive, to return an error, or to panic.
\<close>

datatype buildResult = Archive string | Failed error | Panicked

type_synonym buildFn = "builder \<Rightarrow> world \<Rightarrow> buildResult \<times> world"

fun buildLoop :: "buildFn \<Rightarrow> builder list \<Rightarrow> world \<Rightarrow> bool \<times> world" where
  \<comment> \<open>the loop \<open>for _, bdr := range gx.builders()\<close> with the body \<open>_, _ = bdr.build()\<close>;
      \<open>True\<close> when a build panicked, which ends the loop\<close>
  "buildLoop build [] w = (False, w)"
| "buildLoop build (bdr # bdrs) w =
     (case build bdr w of
        (Panicked, w1) \<Rightarrow> (True, w1)
      | (_, w1) \<Rightarrow> buildLoop build bdrs w1)"

text \<open>
  A call of \<open>run\<close> returns an error or nil, or it panics. \<open>afterInit\<close> is \<open>run\<close> from the
  call of \<open>gx.init()\<close> on. The deferred calls run when \<open>run\<close> returns and when it panics,
  last one first: the removal of the working directory, then \<open>os.Chdir(prev)\<close>.
\<close>

datatype 'a outcome = Returns 'a | Panics

definition afterInit :: "buildFn \<Rightarrow> goxz \<Rightarrow> world \<Rightarrow> error option outcome \<times> world" where
  "afterInit build gx w =
     (case init gx w of
        (gx1, w1, Some err) \<Rightarrow> (Returns (Some err), w1)
      | (gx1, w1, None) \<Rightarrow>
          (case prepareWorkdir gx1 w1 of
             (gx2, w2, Some err) \<Rightarrow> (Returns (Some err), w2)
           | (gx2, w2, None) \<Rightarrow>
               let w3 = (if gx_work gx2 then Printf (LogWorkingDir (gx_workDir gx2)) w2 else w2);
                   (panicked, w4) = buildLoop build (builders gx2) w3;
                   w5 = (if \<not> gx_work gx2 then RemoveAll (gx_workDir gx2) w4 else w4)
               in (if panicked then Panics else Returns None, w5)))"

definition run :: "buildFn \<Rightarrow> string list \<Rightarrow> world \<Rightarrow> error option outcome \<times> world" where
  "run build args w =
     (case parseArgs args of
        Inl err \<Rightarrow> (Returns (Some err), w)
      | Inr gx \<Rightarrow>
          if gx_projDir gx \<noteq> [] then
            (case Abs ''.'' w of
               Inl err \<Rightarrow> (Returns (Some err), w)
             | Inr prev \<Rightarrow>
                 (case Chdir (gx_projDir gx) w of
                    (Some err, w1) \<Rightarrow> (Returns (Some err), w1)
                  | (None, w1) \<Rightarrow>
                      let (r, w2) = afterInit build gx w1
                      in (r, snd (Chdir prev w2))))
          else afterInit build gx w)"

definition Run :: "buildFn \<Rightarrow> string list \<Rightarrow> world \<Rightarrow> int outcome \<times> world" where
  \<comment> \<open>the exit code that \<open>Run\<close> returns; a panic of \<open>run\<close> is not recovered\<close>
  "Run build args w =
     (case run build args w of
        (Panics, w1) \<Rightarrow> (Panics, w1)
      | (Returns (Some err), w1) \<Rightarrow>
          (Returns exitCodeErr, if err \<noteq> ErrHelp then Printf (LogError err) w1 else w1)
      | (Returns None, w1) \<Rightarrow> (Returns exitCodeOK, w1))"


section \<open>Sample worlds and a sample build\<close>

definition projectWorld :: "(string \<times> FileMode) list \<Rightarrow> world" where
  \<comment> \<open>a world with a project directory \<open>/proj\<close>, which is the working directory, holding
      the given nodes\<close>
  "projectWorld ns =
     \<lparr>nodes = [(''/'', ModeDir), (''/proj'', ModeDir)] @ ns,
      cwd = Some ''/proj'', GOPATH = ''/go'', tempDir = ''/tmp'',
      suffixes = (\<lambda>n. 123456789), drawn = 0, logged = []\<rparr>"

definition staleWorld :: world where
  \<comment> \<open>the destination directory \<open>goxz\<close> after an earlier run: two archives, and a file
      whose name begins with \<open>.zip\<close>\<close>
  "staleWorld =
     projectWorld
       [(''/proj/main.go'', ModeRegular),
        (''/proj/goxz'', ModeDir),
        (''/proj/goxz/proj_linux_amd64.tar.gz'', ModeRegular),
        (''/proj/goxz/proj_windows_amd64.zip'', ModeRegular),
        (''/proj/goxz/.zip-notes'', ModeRegular)]"

definition resourceWorld :: world where
  \<comment> \<open>a project directory with the four files \<open>README.md\<close>, \<open>LICENSE\<close>, \<open>install.go\<close>
      and \<open>main.go\<close>\<close>
  "resourceWorld =
     projectWorld
       [(''/proj/README.md'', ModeRegular), (''/proj/LICENSE'', ModeRegular),
        (''/proj/install.go'', ModeRegular), (''/proj/main.go'', ModeRegular)]"

definition plainWorld :: world where
  \<comment> \<open>a project directory with source files only\<close>
  "plainWorld =
     projectWorld [(''/proj/main.go'', ModeRegular), (''/proj/install.go'', ModeRegular),
                   (''/proj/docs'', ModeDir), (''/proj/docs/README.md'', ModeRegular)]"


definition sampleBuild :: buildFn where
  \<comment> \<open>a build that fails for the architecture \<open>bogus\<close> and otherwise writes a zip archive,
      named after the application and the platform, into the directory \<open>goxz\<close>\<close>
  "sampleBuild bdr w =
     (if arch (bdr_platform bdr) = ''bogus''
      then (Failed (BuildError ''unsupported GOOS/GOARCH pair''), w)
      else let p = Join [''goxz'', bdr_name bdr @ ''_'' @ os (bdr_platform bdr) @ ''_''
                                   @ arch (bdr_platform bdr) @ ''.zip'']
           in (Archive p,
               case locate w p of
                 None \<Rightarrow> w
               | Some k \<Rightarrow> w\<lparr>nodes := nodes w @ [(k, ModeRegular)]\<rparr>))"

definition stagingBuild :: buildFn where
  \<comment> \<open>the sample build, after it has made its staging directory, named after the
      platform, in the working directory of the run\<close>
  "stagingBuild bdr w =
     (case Mkdir (Join [bdr_workDirBase bdr,
                        os (bdr_platform bdr) @ ''_'' @ arch (bdr_platform bdr)]) w of
        (err, w1) \<Rightarrow> sampleBuild bdr w1)"

section \<open>Vocabulary of the statements on resources\<close>

definition isResource :: "FileInfo \<Rightarrow> bool" where
  \<comment> \<open>the selection rule of \<open>gatherResources\<close>\<close>
  "isResource f =
     (IsRegular (Mode f) \<and> resourceReg_MatchString (Name f) \<and> \<not> HasSuffix (Name f) ''.go'')"

definition lower :: "char \<Rightarrow> char" where
  \<comment> \<open>an upper-case ASCII letter as the lower-case letter, any other byte as it is\<close>
  "lower c = (if CHR ''A'' \<le> c \<and> c \<le> CHR ''Z'' then char_of (of_char c + (32::nat)) else c)"

definition prefixNoCase :: "string \<Rightarrow> string \<Rightarrow> bool" where
  \<comment> \<open>the text begins with the word, ASCII case ignored\<close>
  "prefixNoCase word s = (length word \<le> length s \<and> map lower (take (length word) s) = word)"

definition ascii :: "string \<Rightarrow> bool" where
  "ascii s = list_all (\<lambda>c. of_char c < (128::nat)) s"

section \<open>Vocabulary of the statements on the workspace\<close>

definition digits :: "string \<Rightarrow> bool" where
  \<comment> \<open>a number in decimal digits\<close>
  "digits s = (s \<noteq> [] \<and> list_all (\<lambda>c. CHR ''0'' \<le> c \<and> c \<le> CHR ''9'') s)"

definition entered :: "goxz \<Rightarrow> world \<Rightarrow> world option" where
  \<comment> \<open>the world in which \<open>run\<close> calls \<open>gx.init()\<close>: the given one, or the one after the
      change to the directory of \<open>-C\<close>; \<open>None\<close> when \<open>run\<close> returns before the call\<close>
  "entered gx w =
     (if gx_projDir gx \<noteq> [] then
        (case Abs ''.'' w of
           Inl err \<Rightarrow> None
         | Inr prev \<Rightarrow>
             (case Chdir (gx_projDir gx) w of
                (Some err, w1) \<Rightarrow> None
              | (None, w1) \<Rightarrow> Some w1))
      else Some w)"

definition prepared :: "string list \<Rightarrow> world \<Rightarrow> (goxz \<times> world \<times> world) option" where
  \<comment> \<open>a run that gets as far as its builders: the struct handed to \<open>builders\<close>, the world
      before \<open>prepareWorkdir\<close> and the world after it\<close>
  "prepared args w =
     (case parseArgs args of
        Inl err \<Rightarrow> None
      | Inr gx \<Rightarrow>
          (case entered gx w of
             None \<Rightarrow> None
           | Some w0 \<Rightarrow>
               (case init gx w0 of
                  (gx1, w1, Some err) \<Rightarrow> None
                | (gx1, w1, None) \<Rightarrow>
                    (case prepareWorkdir gx1 w1 of
                       (gx2, w2, Some err) \<Rightarrow> None
                     | (gx2, w2, None) \<Rightarrow> Some (gx2, w1, w2)))))"

definition started :: "goxz \<Rightarrow> world \<Rightarrow> world" where
  \<comment> \<open>the world handed to the first builder: with \<open>-work\<close>, the path of the working
      directory has been logged\<close>
  "started gx w = (if gx_work gx then Printf (LogWorkingDir (gx_workDir gx)) w else w)"

section \<open>Vocabulary of the statements on paths and packages\<close>

fun stackOK :: "string list \<Rightarrow> bool" where
  \<comment> \<open>in the elements written by \<open>Clean\<close>, last first: below a \<open>..\<close> there are only \<open>..\<close>\<close>
  "stackOK [] = True"
| "stackOK (e # st) = (if e = ''..'' then set st \<subseteq> {''..''} else stackOK st)"





section \<open>Properties of platform resolution\<close>


lemma set_firstSeen: "set (firstSeen xs) = set xs"
  by (induction xs) auto

lemma distinct_firstSeen: "distinct (firstSeen xs)"
  by (induction xs) (auto simp: set_firstSeen)

lemma length_firstSeen: "length (firstSeen xs) = card (set xs)"
  by (metis distinct_card distinct_firstSeen set_firstSeen)

lemma firstSeen_map_inj: "inj_on f (set xs) \<Longrightarrow> firstSeen (map f xs) = map f (firstSeen xs)"
proof (induction xs)
  case Nil then show ?case by simp
next
  case (Cons x xs)
  have s: "set (firstSeen xs) \<subseteq> set xs" by (simp add: set_firstSeen)
  have "filter (\<lambda>y. y \<noteq> f x) (map f (firstSeen xs)) = map f (filter (\<lambda>y. y \<noteq> x) (firstSeen xs))"
    unfolding filter_map comp_def
    using Cons.prems s by (intro arg_cong[where f="map f"] filter_cong refl) (auto simp: inj_on_def)
  with Cons show ?case by simp
qed

lemma archLoop_eq: "archLoop a archs acc = acc @ map (\<lambda>b. \<lparr>os = a, arch = b\<rparr>) (filter (\<lambda>t. TrimSpace t \<noteq> []) archs)"
  by (induction archs arbitrary: acc) auto

lemma osLoop_eq: "osLoop oss archs acc = acc @ cartesian (filter (\<lambda>t. TrimSpace t \<noteq> []) oss) (filter (\<lambda>t. TrimSpace t \<noteq> []) archs)"
  by (induction oss arbitrary: acc) (auto simp: archLoop_eq cartesian_def)

lemma uniqLoop_eq: "uniqLoop pfs seen acc = acc @ uniqFrom (dom seen) pfs"
  by (induction pfs arbitrary: seen acc) (auto simp: Let_def split: option.splits)

lemma keys_uniqFrom: "map platformKey (uniqFrom S pfs) = filter (\<lambda>k. k \<notin> S) (firstSeen (map platformKey pfs))"
proof (induction pfs arbitrary: S)
  case Nil then show ?case by simp
next
  case (Cons p pfs)
  show ?case
  proof (cases "platformKey p \<in> S")
    case True
    then have "filter (\<lambda>k. k \<notin> S) (filter (\<lambda>y. y \<noteq> platformKey p) (firstSeen (map platformKey pfs)))
      = filter (\<lambda>k. k \<notin> S) (firstSeen (map platformKey pfs))"
      unfolding filter_filter by (intro filter_cong) auto
    with True Cons show ?thesis by simp
  next
    case False
    have "filter (\<lambda>k. k \<notin> S) (filter (\<lambda>y. y \<noteq> platformKey p) (firstSeen (map platformKey pfs)))
      = filter (\<lambda>k. k \<notin> insert (platformKey p) S) (firstSeen (map platformKey pfs))"
      unfolding filter_filter by (intro filter_cong) auto
    with False Cons show ?thesis by simp
  qed
qed

lemma subseq_uniqFrom: "subseq (uniqFrom S pfs) pfs"
  by (induction pfs arbitrary: S) auto

lemma set_uniqFrom: "set (uniqFrom S pfs) \<subseteq> set pfs"
  by (induction pfs arbitrary: S) auto

lemma resolvePlatforms_eq:
  "resolvePlatforms os1 arch1 = Inr (uniqFrom {} (cartesian (tokens os1) (tokens arch1)))"
  by (simp add: resolvePlatforms_def Let_def osLoop_eq uniqLoop_eq tokens_def)

lemma keys_uniqFrom_empty: "map platformKey (uniqFrom {} pfs) = firstSeen (map platformKey pfs)"
  by (simp add: keys_uniqFrom)

lemma distinct_uniqFrom: "distinct (uniqFrom {} pfs)"
proof -
  have "distinct (map platformKey (uniqFrom {} pfs))"
    by (simp add: keys_uniqFrom_empty distinct_firstSeen)
  then show ?thesis by (simp add: distinct_map)
qed

lemma takeWhile_upto_colon:
  "CHR '':'' \<notin> set a \<Longrightarrow> takeWhile (\<lambda>c. c \<noteq> CHR '':'') (a @ CHR '':'' # b) = a"
  by (induction a) auto

lemma platformKey_inj:
  assumes "CHR '':'' \<notin> set (os p)" "CHR '':'' \<notin> set (os q)" "platformKey p = platformKey q"
  shows "p = (q::platform)"
proof -
  note t = takeWhile_upto_colon
  from assms(3) have e: "os p @ CHR '':'' # arch p = os q @ CHR '':'' # arch q"
    by (simp add: platformKey_def)
  have "os p = os q" using t[OF assms(1), of "arch p"] t[OF assms(2), of "arch q"] e by simp
  moreover from this e have "arch p = arch q" by simp
  ultimately show ?thesis by simp
qed

lemma os_cartesian: "pf \<in> set (cartesian oss archs) \<Longrightarrow> os pf \<in> set oss \<and> arch pf \<in> set archs"
  by (auto simp: cartesian_def)

lemma uniqFrom_inj:
  assumes "inj_on platformKey (set pfs)"
  shows "uniqFrom {} pfs = firstSeen pfs"
proof -
  have "map platformKey (uniqFrom {} pfs) = map platformKey (firstSeen pfs)"
    by (simp add: keys_uniqFrom_empty firstSeen_map_inj [OF assms])
  moreover have "set (uniqFrom {} pfs) \<subseteq> set pfs"
    by (rule set_uniqFrom)
  ultimately show ?thesis
    using assms by (intro map_inj_on [where f = platformKey]) (auto simp: set_firstSeen intro: inj_on_subset)
qed


lemma key_inj_on_cartesian:
  assumes "\<forall>t \<in> set oss. CHR '':'' \<notin> set t"
  shows "inj_on platformKey (set (cartesian oss archs))"
  using assms by (auto simp: inj_on_def dest!: os_cartesian intro: platformKey_inj)

text \<open>
  Claim C4, as the code has it. For all input strings \<open>resolvePlatforms\<close> returns, with no
  error, a list without duplicates that is a subsequence of the Cartesian product of the
  token lists and keeps one pair for every distinct deduplication key \<open>os:arch\<close>, at the
  place where that key is first seen. When no token of the OS list contains a colon, the
  result is the product with every pair kept at its first occurrence, and its length is
  the number of distinct pairs. \<open>resolvePlatforms "linux, darwin" "amd64 arm64"\<close> is
  linux/amd64, linux/arm64, darwin/amd64, darwin/arm64 in that order.
\<close>

theorem resolvePlatforms_first_seen:
  "(\<exists>r. resolvePlatforms os1 arch1 = Inr r
        \<and> distinct r
        \<and> subseq r (cartesian (tokens os1) (tokens arch1))
        \<and> map platformKey r = firstSeen (map platformKey (cartesian (tokens os1) (tokens arch1)))
        \<and> ((\<forall>t \<in> set (tokens os1). CHR '':'' \<notin> set t) \<longrightarrow>
             r = firstSeen (cartesian (tokens os1) (tokens arch1))
             \<and> length r = card (set (cartesian (tokens os1) (tokens arch1)))))
   \<and> resolvePlatforms ''linux, darwin'' ''amd64 arm64'' =
       Inr [\<lparr>os = ''linux'', arch = ''amd64''\<rparr>, \<lparr>os = ''linux'', arch = ''arm64''\<rparr>,
            \<lparr>os = ''darwin'', arch = ''amd64''\<rparr>, \<lparr>os = ''darwin'', arch = ''arm64''\<rparr>]"
proof
  let ?c = "cartesian (tokens os1) (tokens arch1)"
  have inj: "(\<forall>t \<in> set (tokens os1). CHR '':'' \<notin> set t) \<longrightarrow>
      uniqFrom {} ?c = firstSeen ?c \<and> length (uniqFrom {} ?c) = card (set ?c)"
    using uniqFrom_inj [OF key_inj_on_cartesian, of "tokens os1" "tokens arch1"]
    by (simp add: length_firstSeen)
  show "\<exists>r. resolvePlatforms os1 arch1 = Inr r
        \<and> distinct r
        \<and> subseq r ?c
        \<and> map platformKey r = firstSeen (map platformKey ?c)
        \<and> ((\<forall>t \<in> set (tokens os1). CHR '':'' \<notin> set t) \<longrightarrow>
             r = firstSeen ?c \<and> length r = card (set ?c))"
    using inj distinct_uniqFrom [of ?c] subseq_uniqFrom [of "{}" ?c] keys_uniqFrom_empty [of ?c]
    by (simp add: resolvePlatforms_eq length_firstSeen)
next
  show "resolvePlatforms ''linux, darwin'' ''amd64 arm64'' =
       Inr [\<lparr>os = ''linux'', arch = ''amd64''\<rparr>, \<lparr>os = ''linux'', arch = ''arm64''\<rparr>,
            \<lparr>os = ''darwin'', arch = ''amd64''\<rparr>, \<lparr>os = ''darwin'', arch = ''arm64''\<rparr>]"
    by code_simp
qed

lemma tokens_ex1: "tokens ''linux, linux'' = [''linux'', ''linux'']"
  by code_simp

lemma tokens_ex2: "tokens ''amd64'' = [''amd64'']"
  by code_simp

text \<open>The theorem at the inputs \<open>"linux, linux"\<close> and \<open>"amd64"\<close>.\<close>

theorem resolvePlatforms_first_seen_witness:
  "list_all (\<lambda>t. CHR '':'' \<notin> set t) (tokens ''linux, linux'')
   \<and> resolvePlatforms ''linux, linux'' ''amd64'' = Inr [\<lparr>os = ''linux'', arch = ''amd64''\<rparr>]
   \<and> length [\<lparr>os = ''linux'', arch = ''amd64''\<rparr>]
       = card (set (cartesian (tokens ''linux, linux'') (tokens ''amd64'')))"
proof -
  have h: "\<forall>t \<in> set (tokens ''linux, linux''). CHR '':'' \<notin> set t"
    by (simp add: tokens_ex1)
  have c: "firstSeen (cartesian (tokens ''linux, linux'') (tokens ''amd64'')) = [\<lparr>os = ''linux'', arch = ''amd64''\<rparr>]"
    by (simp add: tokens_ex1 tokens_ex2 cartesian_def)
  from resolvePlatforms_first_seen [of "''linux, linux''" "''amd64''"] h c
  show ?thesis by (auto simp: list_all_iff)
qed

text \<open>
  With the OS list \<open>"a a:b"\<close> and the architecture list \<open>"b:c c"\<close> the product has four
  distinct pairs; the pairs (a, b:c) and (a:b, c) share the key \<open>a:b:c\<close>, and only three
  platforms are returned.
\<close>

theorem resolvePlatforms_distinct_pairs_counterexample:
  "resolvePlatforms ''a a:b'' ''b:c c'' =
     Inr [\<lparr>os = ''a'', arch = ''b:c''\<rparr>, \<lparr>os = ''a'', arch = ''c''\<rparr>, \<lparr>os = ''a:b'', arch = ''b:c''\<rparr>]
   \<and> cartesian (tokens ''a a:b'') (tokens ''b:c c'') =
     [\<lparr>os = ''a'', arch = ''b:c''\<rparr>, \<lparr>os = ''a'', arch = ''c''\<rparr>,
      \<lparr>os = ''a:b'', arch = ''b:c''\<rparr>, \<lparr>os = ''a:b'', arch = ''c''\<rparr>]
   \<and> card (set (cartesian (tokens ''a a:b'') (tokens ''b:c c''))) = 4"
proof -
  have r: "resolvePlatforms ''a a:b'' ''b:c c'' =
     Inr [\<lparr>os = ''a'', arch = ''b:c''\<rparr>, \<lparr>os = ''a'', arch = ''c''\<rparr>, \<lparr>os = ''a:b'', arch = ''b:c''\<rparr>]"
    by code_simp
  have c: "cartesian (tokens ''a a:b'') (tokens ''b:c c'') =
     [\<lparr>os = ''a'', arch = ''b:c''\<rparr>, \<lparr>os = ''a'', arch = ''c''\<rparr>,
      \<lparr>os = ''a:b'', arch = ''b:c''\<rparr>, \<lparr>os = ''a:b'', arch = ''c''\<rparr>]"
    by code_simp
  show ?thesis unfolding c using r by simp
qed


subsection \<open>Tokens\<close>

lemma separateReg_match_None: "separateReg_match (c # cs) = None \<Longrightarrow> \<not> separator c"
  by (auto simp: separateReg_match_def separator_def Let_def split: if_splits)

lemma separateReg_match_take:
  assumes "separateReg_match s = Some n"
  shows "\<forall>c \<in> set (take n s). separator c"
proof -
  let ?w = "takeWhile reSpace s" and ?r = "dropWhile reSpace s"
  have s: "s = ?w @ ?r" by simp
  have w: "\<forall>c \<in> set ?w. separator c" by (auto simp: separator_def dest: set_takeWhileD)
  show ?thesis
  proof (cases "?r \<noteq> [] \<and> hd ?r = CHR '',''")
    case True
    then obtain r' where r: "?r = CHR '','' # r'" by (cases ?r) auto
    from True assms have n: "n = length ?w + 1 + length (takeWhile reSpace r')"
      by (simp add: separateReg_match_def Let_def r)
    have "take n s = take n (?w @ CHR '','' # takeWhile reSpace r' @ dropWhile reSpace r')"
      using r by (metis s takeWhile_dropWhile_id)
    also have "\<dots> = ?w @ CHR '','' # takeWhile reSpace r'"
      unfolding n by (simp del: takeWhile_dropWhile_id)
    finally show ?thesis using w by (auto simp: separator_def dest: set_takeWhileD)
  next
    case False
    with assms have n: "n = length ?w"
      by (auto simp: separateReg_match_def Let_def split: if_splits)
    have "take n s = ?w" unfolding n by (rule takeWhile_eq_take [symmetric])
    then show ?thesis using w by simp
  qed
qed

lemma splitFrom_pieces:
  "t \<in> set (splitFrom acc s) \<Longrightarrow> c \<in> set t \<Longrightarrow> c \<in> set acc \<or> \<not> separator c"
proof (induction acc s arbitrary: t rule: splitFrom.induct)
  case (1 acc)
  then show ?case by simp
next
  case (2 acc c' cs)
  show ?case
  proof (cases "separateReg_match (c' # cs)")
    case None
    with 2 separateReg_match_None [OF None] show ?thesis by fastforce
  next
    case (Some n)
    with 2 show ?thesis by fastforce
  qed
qed

lemma splitFrom_concat:
  "concat (splitFrom acc s) = rev acc @ filter (\<lambda>c. \<not> separator c) s"
proof (induction acc s rule: splitFrom.induct)
  case (1 acc)
  then show ?case by simp
next
  case (2 acc c cs)
  show ?case
  proof (cases "separateReg_match (c # cs)")
    case None
    with 2 separateReg_match_None [OF None] show ?thesis by simp
  next
    case (Some n)
    have "filter (\<lambda>c. \<not> separator c) (c # cs)
        = filter (\<lambda>c. \<not> separator c) (take n (c # cs)) @ filter (\<lambda>c. \<not> separator c) (drop n (c # cs))"
      by (metis append_take_drop_id filter_append)
    also have "filter (\<lambda>c. \<not> separator c) (take n (c # cs)) = []"
      using separateReg_match_take [OF Some] by (simp add: filter_empty_conv)
    finally show ?thesis using 2 Some by simp
  qed
qed

lemma separateReg_Split_pieces:
  "t \<in> set (separateReg_Split s) \<Longrightarrow> c \<in> set t \<Longrightarrow> \<not> separator c"
  using splitFrom_pieces [of t "[]" s c] by (auto simp: separateReg_Split_def split: if_splits)

lemma separateReg_Split_concat:
  "concat (separateReg_Split s) = filter (\<lambda>c. \<not> separator c) s"
  by (simp add: separateReg_Split_def splitFrom_concat)

lemma TrimSpace_Nil: "TrimSpace [] = []"
  by (simp add: TrimSpace_def spaceRunes_def HasPrefix_def HasSuffix_def)

lemma tokens_nonempty: "t \<in> set (tokens s) \<Longrightarrow> t \<noteq> []"
  using TrimSpace_Nil by (auto simp: tokens_def)

lemma tokens_pieces: "t \<in> set (tokens s) \<Longrightarrow> c \<in> set t \<Longrightarrow> \<not> separator c"
  using separateReg_Split_pieces by (auto simp: tokens_def)

text \<open>
  Claim C5. For every pair of input strings \<open>resolvePlatforms\<close> returns, with no error,
  platforms whose \<open>os\<close> and \<open>arch\<close> are tokens of the respective input: not empty, and
  free of the separator characters (white space and comma). The pieces that the split
  produces are, put together, the input without its separator characters.
\<close>

theorem resolvePlatforms_components_not_empty:
  "\<exists>r. resolvePlatforms os1 arch1 = Inr r
      \<and> (\<forall>pf \<in> set r.
            os pf \<in> set (tokens os1) \<and> arch pf \<in> set (tokens arch1)
            \<and> os pf \<noteq> [] \<and> arch pf \<noteq> []
            \<and> (\<forall>c \<in> set (os pf) \<union> set (arch pf). \<not> separator c))
      \<and> concat (separateReg_Split os1) = filter (\<lambda>c. \<not> separator c) os1
      \<and> concat (separateReg_Split arch1) = filter (\<lambda>c. \<not> separator c) arch1"
proof -
  let ?r = "uniqFrom {} (cartesian (tokens os1) (tokens arch1))"
  have "os pf \<in> set (tokens os1) \<and> arch pf \<in> set (tokens arch1)
        \<and> os pf \<noteq> [] \<and> arch pf \<noteq> []
        \<and> (\<forall>c \<in> set (os pf) \<union> set (arch pf). \<not> separator c)" if "pf \<in> set ?r" for pf
  proof -
    from that have "pf \<in> set (cartesian (tokens os1) (tokens arch1))"
      using set_uniqFrom by blast
    then have m: "os pf \<in> set (tokens os1)" "arch pf \<in> set (tokens arch1)"
      by (simp_all add: os_cartesian)
    then show ?thesis
      using tokens_nonempty tokens_pieces by blast
  qed
  then show ?thesis
    by (simp add: resolvePlatforms_eq separateReg_Split_concat)
qed

text \<open>The theorem at the inputs \<open>"linux ,, darwin"\<close> and \<open>" amd64"\<close>.\<close>

theorem resolvePlatforms_components_not_empty_witness:
  "resolvePlatforms ''linux ,, darwin'' '' amd64'' =
     Inr [\<lparr>os = ''linux'', arch = ''amd64''\<rparr>, \<lparr>os = ''darwin'', arch = ''amd64''\<rparr>]
   \<and> list_all (\<lambda>pf. os pf \<noteq> [] \<and> arch pf \<noteq> [])
       [\<lparr>os = ''linux'', arch = ''amd64''\<rparr>, \<lparr>os = ''darwin'', arch = ''amd64''\<rparr>]"
proof -
  have r: "resolvePlatforms ''linux ,, darwin'' '' amd64'' =
     Inr [\<lparr>os = ''linux'', arch = ''amd64''\<rparr>, \<lparr>os = ''darwin'', arch = ''amd64''\<rparr>]"
    by code_simp
  from resolvePlatforms_components_not_empty [of "''linux ,, darwin''" "'' amd64''"]
  show ?thesis unfolding r by (auto simp: list_all_iff)
qed


section \<open>Clean paths\<close>

lemma elements_nonempty [simp]: "elements p \<noteq> []"
  by (induction p) (auto split: list.splits)


lemma elements_single: "CHR ''/'' \<notin> set e \<Longrightarrow> elements e = [e]"
  by (induction e) auto

lemma elements_append: "elements (a @ CHR ''/'' # b) = elements a @ elements b"
proof (induction a)
  case Nil
  show ?case by simp
next
  case (Cons c a)
  then show ?case
    by (cases "elements a") (auto split: list.splits)
qed


lemma dots_stackOK: "set st \<subseteq> {''..''} \<Longrightarrow> stackOK st"
  by (induction st) auto

lemma stackOK_tl: "stackOK st \<Longrightarrow> stackOK (tl st)"
  by (cases st) (auto split: if_splits intro: dots_stackOK)



























lemma relWalk_Nil2: "relWalk base [] = ([], base, [])"
  by (subst relWalk.simps) simp




lemma joinElements_nonempty:
  "xs \<noteq> [] \<Longrightarrow> [] \<notin> set xs \<Longrightarrow> joinElements xs \<noteq> []"
  by (induction xs rule: joinElements.induct) auto

lemma cleanStep_nonempty:
  "[] \<notin> set out \<Longrightarrow> [] \<notin> set (cleanStep rooted out e)"
  by (cases out) (auto simp: cleanStep_def)

lemma foldl_cleanStep_nonempty:
  "[] \<notin> set out \<Longrightarrow> [] \<notin> set (foldl (cleanStep rooted) out es)"
  by (induction es arbitrary: out) (auto simp: cleanStep_nonempty)

lemma Clean_nonempty: "Clean p \<noteq> []"
proof (cases "p = [] \<or> hd p = CHR ''/'' \<or> foldl (cleanStep False) [] (elements p) = []")
  case True
  then show ?thesis by (auto simp: Clean_def Let_def)
next
  case False
  let ?out = "rev (foldl (cleanStep False) [] (elements p))"
  have "[] \<notin> set ?out"
    using foldl_cleanStep_nonempty [of "[]" False "elements p"] by simp
  moreover have "?out \<noteq> []" using False by simp
  ultimately have "joinElements ?out \<noteq> []" by (rule joinElements_nonempty [rotated])
  with False show ?thesis by (simp add: Clean_def Let_def)
qed


section \<open>The destination directory on reuse\<close>

text \<open>
  Claim C1 says that \<open>setupDest\<close>, on a destination that exists, removes the regular files
  named as archives (\<open>.zip\<close>, \<open>.tar.gz\<close>). The code tests the names with
  \<open>strings.HasPrefix\<close>: in \<open>staleWorld\<close> it returns nil, leaves both archives of the earlier
  run in place and removes the one file whose name begins with \<open>.zip\<close>.
\<close>

theorem setupDest_keeps_stale_archives:
  "ReadDir ''goxz'' staleWorld =
     Inr [\<lparr>Name = ''.zip-notes'', Mode = ModeRegular\<rparr>,
          \<lparr>Name = ''proj_linux_amd64.tar.gz'', Mode = ModeRegular\<rparr>,
          \<lparr>Name = ''proj_windows_amd64.zip'', Mode = ModeRegular\<rparr>]
   \<and> fst (setupDest ''goxz'' staleWorld) = None
   \<and> ReadDir ''goxz'' (snd (setupDest ''goxz'' staleWorld)) =
     Inr [\<lparr>Name = ''proj_linux_amd64.tar.gz'', Mode = ModeRegular\<rparr>,
          \<lparr>Name = ''proj_windows_amd64.zip'', Mode = ModeRegular\<rparr>]
   \<and> logged (snd (setupDest ''goxz'' staleWorld)) = [LogRemoving ''goxz/.zip-notes'']"
  by code_simp

section \<open>The outcome of a run\<close>

text \<open>
  Claim C2 says that a run in which a builder fails ends in failure, the other archives
  being produced all the same. With the architectures \<open>bogus\<close> and \<open>amd64\<close> the sample
  build fails for the first platform and writes the archive of the second; \<open>run\<close> returns
  nil and \<open>Run\<close> the exit code 0.
\<close>

theorem run_ignores_build_errors:
  "resolvePlatforms ''linux'' ''bogus amd64'' =
     Inr [\<lparr>os = ''linux'', arch = ''bogus''\<rparr>, \<lparr>os = ''linux'', arch = ''amd64''\<rparr>]
   \<and> fst (sampleBuild
          \<lparr>bdr_platform = \<lparr>os = ''linux'', arch = ''bogus''\<rparr>, bdr_name = ''proj'',
           bdr_version = [], bdr_output = [], bdr_buildLdFlags = [], bdr_buildTags = [],
           bdr_pkgs = [''.''], bdr_zipAlways = False, bdr_workDirBase = ''/proj/.goxz-123456789'',
           bdr_resources = []\<rparr> w) = Failed (BuildError ''unsupported GOOS/GOARCH pair'')
   \<and> fst (run sampleBuild [''-os'', ''linux'', ''-arch'', ''bogus amd64''] staleWorld) = Returns None
   \<and> fst (Run sampleBuild [''-os'', ''linux'', ''-arch'', ''bogus amd64''] staleWorld) = Returns 0
   \<and> map_of (nodes (snd (Run sampleBuild [''-os'', ''linux'', ''-arch'', ''bogus amd64''] staleWorld)))
        ''/proj/goxz/proj_linux_amd64.zip'' = Some ModeRegular"
proof -
  have "fst (sampleBuild
          \<lparr>bdr_platform = \<lparr>os = ''linux'', arch = ''bogus''\<rparr>, bdr_name = ''proj'',
           bdr_version = [], bdr_output = [], bdr_buildLdFlags = [], bdr_buildTags = [],
           bdr_pkgs = [''.''], bdr_zipAlways = False, bdr_workDirBase = ''/proj/.goxz-123456789'',
           bdr_resources = []\<rparr> w) = Failed (BuildError ''unsupported GOOS/GOARCH pair'')"
    by (simp add: sampleBuild_def)
  moreover have "resolvePlatforms ''linux'' ''bogus amd64'' =
     Inr [\<lparr>os = ''linux'', arch = ''bogus''\<rparr>, \<lparr>os = ''linux'', arch = ''amd64''\<rparr>]"
    by code_simp
  moreover have "fst (run sampleBuild [''-os'', ''linux'', ''-arch'', ''bogus amd64''] staleWorld) = Returns None"
    by code_simp
  moreover have "fst (Run sampleBuild [''-os'', ''linux'', ''-arch'', ''bogus amd64''] staleWorld) = Returns 0"
    by code_simp
  moreover have "map_of (nodes (snd (Run sampleBuild [''-os'', ''linux'', ''-arch'', ''bogus amd64''] staleWorld)))
        ''/proj/goxz/proj_linux_amd64.zip'' = Some ModeRegular"
    by code_simp
  ultimately show ?thesis by simp
qed

lemma Run_codes:
  "fst (Run build args w) = Panics \<or> fst (Run build args w) = Returns 0
   \<or> fst (Run build args w) = Returns 2"
  by (auto simp: Run_def exitCodeErr_def exitCodeOK_def
           split: prod.splits outcome.splits option.splits)

text \<open>
  Claim C3 says that a flag-parse error gives the exit code 1. \<open>Run\<close> returns
  \<open>exitCodeErr\<close>, which is 2, for every error of \<open>run\<close>, the errors of \<open>FlagSet.Parse\<close>
  among them; \<open>exitFlagErr\<close> is declared and never returned.
\<close>

theorem Run_flag_error_exit_code:
  "parseArgs [''-nosuchflag''] = Inl (FlagError (NotDefined ''nosuchflag''))
   \<and> fst (Run build [''-nosuchflag''] w) = Returns 2
   \<and> exitFlagErr = 1
   \<and> fst (Run build args w) \<noteq> Returns exitFlagErr"
proof -
  have p: "parseArgs [''-nosuchflag''] = Inl (FlagError (NotDefined ''nosuchflag''))"
    by code_simp
  have "fst (Run build [''-nosuchflag''] w) = Returns 2"
    by (simp add: Run_def run_def p exitCodeErr_def)
  moreover have "fst (Run build args w) \<noteq> Returns exitFlagErr"
    using Run_codes [of build args w] by (auto simp: exitFlagErr_def)
  ultimately show ?thesis using p by (simp add: exitFlagErr_def)
qed


section \<open>Resource discovery\<close>

lemma gatherLoop_eq:
  "gatherLoop dir files ret = ret @ map (\<lambda>f. Join [dir, Name f]) (filter isResource files)"
  by (induction files arbitrary: ret) (auto simp: isResource_def Let_def)

lemma gatherResources_eq:
  "ReadDir dir w = Inr files \<Longrightarrow>
   gatherResources dir w = Inr (map (\<lambda>f. Join [dir, Name f]) (filter isResource files))"
  by (simp add: gatherResources_def gatherLoop_eq)

lemma set_entries:
  "set (entries w p) = (\<lambda>(q, m). \<lparr>Name = lastElement q, Mode = m\<rparr>) `
                           {(q, m) \<in> set (nodes w). q \<noteq> ''/'' \<and> parent q = p}"
proof -
  have "{x \<in> set (nodes w). case x of (q, m) \<Rightarrow> q \<noteq> ''/'' \<and> parent q = p}
      = {(q, m) \<in> set (nodes w). q \<noteq> ''/'' \<and> parent q = p}"
    by auto
  then show ?thesis by (simp add: entries_def)
qed

lemma ReadDir_entries:
  assumes "ReadDir dir w = Inr files"
  shows "\<exists>p. locate w dir = Some p \<and> map_of (nodes w) p = Some ModeDir
           \<and> set files = (\<lambda>(q, m). \<lparr>Name = lastElement q, Mode = m\<rparr>) `
                           {(q, m) \<in> set (nodes w). q \<noteq> ''/'' \<and> parent q = p}"
proof -
  from assms obtain p where p: "stat w ''open'' dir = Inr (p, ModeDir)" and f: "files = entries w p"
    by (auto simp: ReadDir_def split: sum.splits if_splits)
  from p have "locate w dir = Some p \<and> map_of (nodes w) p = Some ModeDir"
    by (auto simp: stat_def locate_def split: sum.splits option.splits)
  with f set_entries [of w p] show ?thesis by blast
qed

lemma lower_eq_iff:
  assumes "CHR ''a'' \<le> c" "c \<le> CHR ''z''"
  shows "lower x = c \<longleftrightarrow> x = c \<or> x = upper c"
proof -
  have c: "97 \<le> (of_char c :: nat)" "(of_char c :: nat) \<le> 122"
    using assms by (simp_all add: less_eq_char_def)
  have x: "(of_char x :: nat) < 256" by simp
  have u: "(of_char (upper c) :: nat) = of_char c - 32"
    using c by (simp add: upper_def take_bit_nat_eq_self)
  show ?thesis
  proof (cases "CHR ''A'' \<le> x \<and> x \<le> CHR ''Z''")
    case True
    then have r: "65 \<le> (of_char x :: nat)" "(of_char x :: nat) \<le> 90"
      by (simp_all add: less_eq_char_def)
    have "lower x = c \<longleftrightarrow> (of_char (lower x) :: nat) = of_char c" by simp
    also have "(of_char (lower x) :: nat) = of_char x + 32"
      using True r by (simp add: lower_def take_bit_nat_eq_self)
    also have "(of_char x + 32 = (of_char c :: nat)) \<longleftrightarrow> (of_char x :: nat) = of_char (upper c)"
      using c u by auto
    also have "\<dots> \<longleftrightarrow> x = upper c" by simp
    finally have "lower x = c \<longleftrightarrow> x = upper c" .
    moreover have "x \<noteq> c" using r c by auto
    ultimately show ?thesis by simp
  next
    case False
    then have l: "lower x = x" by (auto simp: lower_def)
    have "x \<noteq> upper c"
    proof
      assume "x = upper c"
      then have "(of_char x :: nat) = of_char c - 32" using u by simp
      then have "65 \<le> (of_char x :: nat) \<and> (of_char x :: nat) \<le> 90" using c by linarith
      then have "CHR ''A'' \<le> x \<and> x \<le> CHR ''Z''" by (simp add: less_eq_char_def)
      with False show False by simp
    qed
    with l show ?thesis by auto
  qed
qed


lemma ascii_hd: "ascii s \<Longrightarrow> s \<noteq> [] \<Longrightarrow> (of_char (hd s) :: nat) < 128"
  by (cases s) (auto simp: ascii_def)

lemma ascii_tl: "ascii s \<Longrightarrow> ascii (tl s)"
  by (cases s) (auto simp: ascii_def)

lemma HasPrefix_single: "HasPrefix s [c] \<longleftrightarrow> s \<noteq> [] \<and> hd s = c"
  by (cases s) (auto simp: HasPrefix_def)

lemma HasPrefix_high:
  "ascii s \<Longrightarrow> 128 \<le> (of_char c :: nat) \<Longrightarrow> \<not> HasPrefix s (c # r)"
  by (cases s) (auto simp: HasPrefix_def ascii_def)

lemma matchFold_step:
  assumes "ascii s"
  shows "matchFold (c # word) s \<longleftrightarrow> s \<noteq> [] \<and> (hd s = c \<or> hd s = upper c) \<and> matchFold word (tl s)"
proof -
  have h1: "\<not> HasPrefix s [CHR 0xC5, CHR 0xBF]"
    by (rule HasPrefix_high [OF assms]) simp
  have h2: "\<not> HasPrefix s [CHR 0xE2, CHR 0x84, CHR 0xAA]"
    by (rule HasPrefix_high [OF assms]) simp
  show ?thesis
    using h1 h2 by (auto simp: foldOrbit_def HasPrefix_single drop_Suc)
qed

lemma prefixNoCase_step:
  "prefixNoCase (c # word) s \<longleftrightarrow> s \<noteq> [] \<and> lower (hd s) = c \<and> prefixNoCase word (tl s)"
  by (cases s) (auto simp: prefixNoCase_def)

lemma matchFold_ascii:
  assumes "ascii s" "list_all (\<lambda>c. CHR ''a'' \<le> c \<and> c \<le> CHR ''z'') word"
  shows "matchFold word s = prefixNoCase word s"
  using assms
proof (induction word arbitrary: s)
  case Nil
  then show ?case by (simp add: prefixNoCase_def)
next
  case (Cons c word)
  from Cons.prems have c: "CHR ''a'' \<le> c" "c \<le> CHR ''z''" by simp_all
  have "matchFold word (tl s) = prefixNoCase word (tl s)"
    using Cons.IH [of "tl s"] Cons.prems ascii_tl by simp
  then show ?case
    using lower_eq_iff [OF c, of "hd s"]
    by (simp only: matchFold_step [OF Cons.prems(1)] prefixNoCase_step)
qed

lemma resourceReg_ascii:
  assumes "ascii s"
  shows "resourceReg_MatchString s =
         list_ex (\<lambda>word. prefixNoCase word s) [''readme'', ''license'', ''credit'', ''install'']"
proof -
  have w: "list_all (\<lambda>c. CHR ''a'' \<le> c \<and> c \<le> CHR ''z'') ''readme''"
          "list_all (\<lambda>c. CHR ''a'' \<le> c \<and> c \<le> CHR ''z'') ''license''"
          "list_all (\<lambda>c. CHR ''a'' \<le> c \<and> c \<le> CHR ''z'') ''credit''"
          "list_all (\<lambda>c. CHR ''a'' \<le> c \<and> c \<le> CHR ''z'') ''install''"
    by (simp_all add: less_eq_char_def)
  show ?thesis
    unfolding resourceReg_MatchString_def
    by (simp only: list_ex_Cons_iff list_ex_Nil_iff
          matchFold_ascii [OF assms w(1)] matchFold_ascii [OF assms w(2)]
          matchFold_ascii [OF assms w(3)] matchFold_ascii [OF assms w(4)])
qed

lemma resource_names:
  "resourceReg_MatchString ''LICENSE''" "resourceReg_MatchString ''README.md''"
  "resourceReg_MatchString ''install.go''" "\<not> resourceReg_MatchString ''main.go''"
  "\<not> HasSuffix ''LICENSE'' ''.go''" "\<not> HasSuffix ''README.md'' ''.go''"
  "HasSuffix ''install.go'' ''.go''"
  by code_simp+

text \<open>
  Claim C6. When the directory can be read, \<open>gatherResources\<close> returns, with no error, the
  paths (the directory joined with the name, in the order of the listing) of exactly the
  entries that are regular files, match \<open>resourceReg\<close> and do not end in \<open>.go\<close>. The
  listing holds the nodes directly inside the directory and no others. For a name in
  ASCII, matching \<open>resourceReg\<close> is beginning with one of the four words, case ignored.
  Over the regular files \<open>LICENSE\<close>, \<open>README.md\<close>, \<open>install.go\<close> and \<open>main.go\<close> the result is
  the paths of \<open>LICENSE\<close> and \<open>README.md\<close>.
\<close>

theorem gatherResources_selects:
  assumes "ReadDir dir w = Inr files"
  shows "gatherResources dir w = Inr (map (\<lambda>f. Join [dir, Name f]) (filter isResource files))
       \<and> (\<exists>p. locate w dir = Some p
              \<and> set files = (\<lambda>(q, m). \<lparr>Name = lastElement q, Mode = m\<rparr>) `
                              {(q, m) \<in> set (nodes w). q \<noteq> ''/'' \<and> parent q = p})
       \<and> (\<forall>f. ascii (Name f) \<longrightarrow>
              isResource f =
                (IsRegular (Mode f)
                 \<and> list_ex (\<lambda>word. prefixNoCase word (Name f))
                      [''readme'', ''license'', ''credit'', ''install'']
                 \<and> \<not> HasSuffix (Name f) ''.go''))
       \<and> (map Name files = [''LICENSE'', ''README.md'', ''install.go'', ''main.go'']
            \<and> list_all (\<lambda>f. IsRegular (Mode f)) files \<longrightarrow>
            gatherResources dir w = Inr [Join [dir, ''LICENSE''], Join [dir, ''README.md'']])"
proof -
  note eq = gatherResources_eq [OF assms]
  have four: "gatherResources dir w = Inr [Join [dir, ''LICENSE''], Join [dir, ''README.md'']]"
    if n: "map Name files = [''LICENSE'', ''README.md'', ''install.go'', ''main.go'']"
      and r: "list_all (\<lambda>f. IsRegular (Mode f)) files"
  proof -
    from n obtain f1 f2 f3 f4 where fs: "files = [f1, f2, f3, f4]"
      and names: "Name f1 = ''LICENSE''" "Name f2 = ''README.md''"
                 "Name f3 = ''install.go''" "Name f4 = ''main.go''"
      by (auto simp: map_eq_Cons_conv)
    from r fs have "isResource f1" "isResource f2" "\<not> isResource f3" "\<not> isResource f4"
      by (simp_all add: isResource_def names resource_names)
    then show ?thesis by (simp add: eq fs names)
  qed
  from ReadDir_entries [OF assms]
  have b: "\<exists>p. locate w dir = Some p
              \<and> set files = (\<lambda>(q, m). \<lparr>Name = lastElement q, Mode = m\<rparr>) `
                              {(q, m) \<in> set (nodes w). q \<noteq> ''/'' \<and> parent q = p}"
    by blast
  have c: "\<forall>f. ascii (Name f) \<longrightarrow>
      isResource f =
        (IsRegular (Mode f)
         \<and> list_ex (\<lambda>word. prefixNoCase word (Name f))
              [''readme'', ''license'', ''credit'', ''install'']
         \<and> \<not> HasSuffix (Name f) ''.go'')"
  proof (intro allI impI)
    fix f :: FileInfo
    assume "ascii (Name f)"
    then show "isResource f =
        (IsRegular (Mode f)
         \<and> list_ex (\<lambda>word. prefixNoCase word (Name f))
              [''readme'', ''license'', ''credit'', ''install'']
         \<and> \<not> HasSuffix (Name f) ''.go'')"
      by (simp only: isResource_def resourceReg_ascii)
  qed
  have d: "map Name files = [''LICENSE'', ''README.md'', ''install.go'', ''main.go'']
            \<and> list_all (\<lambda>f. IsRegular (Mode f)) files \<longrightarrow>
            gatherResources dir w = Inr [Join [dir, ''LICENSE''], Join [dir, ''README.md'']]"
  proof (intro impI, elim conjE)
    assume "map Name files = [''LICENSE'', ''README.md'', ''install.go'', ''main.go'']"
      and "list_all (\<lambda>f. IsRegular (Mode f)) files"
    then show "gatherResources dir w = Inr [Join [dir, ''LICENSE''], Join [dir, ''README.md'']]"
      by (rule four)
  qed
  show ?thesis by (rule conjI [OF eq conjI [OF b conjI [OF c d]]])
qed

text \<open>The theorem in \<open>resourceWorld\<close>, for the directory \<open>/proj\<close>.\<close>

theorem gatherResources_selects_witness:
  "ReadDir ''/proj'' resourceWorld =
     Inr [\<lparr>Name = ''LICENSE'', Mode = ModeRegular\<rparr>, \<lparr>Name = ''README.md'', Mode = ModeRegular\<rparr>,
          \<lparr>Name = ''install.go'', Mode = ModeRegular\<rparr>, \<lparr>Name = ''main.go'', Mode = ModeRegular\<rparr>]
   \<and> gatherResources ''/proj'' resourceWorld = Inr [''/proj/LICENSE'', ''/proj/README.md'']"
proof -
  have r: "ReadDir ''/proj'' resourceWorld =
     Inr [\<lparr>Name = ''LICENSE'', Mode = ModeRegular\<rparr>, \<lparr>Name = ''README.md'', Mode = ModeRegular\<rparr>,
          \<lparr>Name = ''install.go'', Mode = ModeRegular\<rparr>, \<lparr>Name = ''main.go'', Mode = ModeRegular\<rparr>]"
    by code_simp
  have j: "Join [''/proj'', ''LICENSE''] = ''/proj/LICENSE''"
          "Join [''/proj'', ''README.md''] = ''/proj/README.md''"
    by code_simp+
  from gatherResources_selects [OF r, THEN conjunct2, THEN conjunct2, THEN conjunct2] j
  show ?thesis
    unfolding r by (simp add: IsRegular_def)
qed

text \<open>
  Claim C7. When the directory can be read and none of its entries is selected,
  \<open>gatherResources\<close> returns the empty list and no error.
\<close>

theorem gatherResources_no_match:
  assumes "ReadDir dir w = Inr files" and "\<not> list_ex isResource files"
  shows "gatherResources dir w = Inr []"
proof -
  from assms(2) have "filter isResource files = []"
    by (simp add: list_ex_iff filter_empty_conv)
  with gatherResources_eq [OF assms(1)] show ?thesis by simp
qed

text \<open>
  The theorem in \<open>plainWorld\<close>: the project directory holds two source files and a
  directory \<open>docs\<close>, with a \<open>README.md\<close> inside.
\<close>

theorem gatherResources_no_match_witness:
  "ReadDir ''/proj'' plainWorld =
     Inr [\<lparr>Name = ''docs'', Mode = ModeDir\<rparr>, \<lparr>Name = ''install.go'', Mode = ModeRegular\<rparr>,
          \<lparr>Name = ''main.go'', Mode = ModeRegular\<rparr>]
   \<and> \<not> list_ex isResource
          [\<lparr>Name = ''docs'', Mode = ModeDir\<rparr>, \<lparr>Name = ''install.go'', Mode = ModeRegular\<rparr>,
           \<lparr>Name = ''main.go'', Mode = ModeRegular\<rparr>]
   \<and> gatherResources ''/proj'' plainWorld = Inr []"
proof -
  have r: "ReadDir ''/proj'' plainWorld =
     Inr [\<lparr>Name = ''docs'', Mode = ModeDir\<rparr>, \<lparr>Name = ''install.go'', Mode = ModeRegular\<rparr>,
          \<lparr>Name = ''main.go'', Mode = ModeRegular\<rparr>]"
    by code_simp
  have n: "\<not> list_ex isResource
          [\<lparr>Name = ''docs'', Mode = ModeDir\<rparr>, \<lparr>Name = ''install.go'', Mode = ModeRegular\<rparr>,
           \<lparr>Name = ''main.go'', Mode = ModeRegular\<rparr>]"
    by (simp add: isResource_def IsRegular_def resource_names)
  from gatherResources_no_match [OF r n] r n show ?thesis by simp
qed


section \<open>Defaults\<close>

lemma projDirStep_fields [simp]:
  "gx_os (fst (projDirStep gx w)) = gx_os gx" "gx_arch (fst (projDirStep gx w)) = gx_arch gx"
  "gx_name (fst (projDirStep gx w)) = gx_name gx" "gx_dest (fst (projDirStep gx w)) = gx_dest gx"
  "gx_pkgs (fst (projDirStep gx w)) = gx_pkgs gx" "gx_work (fst (projDirStep gx w)) = gx_work gx"
  by (simp_all add: projDirStep_def split: sum.splits)

lemma nameStep_fields [simp]:
  "gx_os (nameStep gx) = gx_os gx" "gx_arch (nameStep gx) = gx_arch gx"
  "gx_projDir (nameStep gx) = gx_projDir gx" "gx_dest (nameStep gx) = gx_dest gx"
  "gx_pkgs (nameStep gx) = gx_pkgs gx" "gx_work (nameStep gx) = gx_work gx"
  "gx_name (nameStep gx) = (if gx_name gx = [] then Base (gx_projDir gx) else gx_name gx)"
  by (simp_all add: nameStep_def)

lemma getDest_fields [simp]:
  "gx_os (snd (getDest gx)) = gx_os gx" "gx_arch (snd (getDest gx)) = gx_arch gx"
  "gx_projDir (snd (getDest gx)) = gx_projDir gx" "gx_name (snd (getDest gx)) = gx_name gx"
  "gx_pkgs (snd (getDest gx)) = gx_pkgs gx" "gx_work (snd (getDest gx)) = gx_work gx"
  "gx_dest (snd (getDest gx)) = (if gx_dest gx = [] then ''goxz'' else gx_dest gx)"
  "fst (getDest gx) = (if gx_dest gx = [] then ''goxz'' else gx_dest gx)"
  by (simp_all add: getDest_def Let_def)

lemma defaultsStep_fields [simp]:
  "gx_name (defaultsStep gx) = gx_name gx" "gx_dest (defaultsStep gx) = gx_dest gx"
  "gx_projDir (defaultsStep gx) = gx_projDir gx" "gx_pkgs (defaultsStep gx) = gx_pkgs gx"
  "gx_work (defaultsStep gx) = gx_work gx"
  "gx_os (defaultsStep gx) = (if gx_os gx = [] then ''linux darwin windows'' else gx_os gx)"
  "gx_arch (defaultsStep gx) = (if gx_arch gx = [] then ''amd64'' else gx_arch gx)"
  by (simp_all add: defaultsStep_def Let_def)

lemma resolveStep_fields [simp]:
  "gx_name (fst (resolveStep gx w)) = gx_name gx" "gx_dest (fst (resolveStep gx w)) = gx_dest gx"
  "gx_projDir (fst (resolveStep gx w)) = gx_projDir gx" "gx_pkgs (fst (resolveStep gx w)) = gx_pkgs gx"
  "gx_os (fst (resolveStep gx w)) = gx_os gx" "gx_arch (fst (resolveStep gx w)) = gx_arch gx"
  "gx_work (fst (resolveStep gx w)) = gx_work gx"
  by (simp_all add: resolveStep_def Let_def split: sum.splits)

lemma resolveStep_platforms:
  "resolvePlatforms (gx_os gx) (gx_arch gx) = Inr (gx_platforms (fst (resolveStep gx w)))"
  by (auto simp: resolveStep_def Let_def resolvePlatforms_def split: sum.splits)

lemma init_reached:
  assumes "snd (projDirStep gx w) = None"
      and "fst (setupDest (if gx_dest gx = [] then ''goxz'' else gx_dest gx) w) = None"
  shows "fst (init gx w) =
           fst (resolveStep (defaultsStep (snd (getDest (nameStep (fst (projDirStep gx w))))))
                  (snd (setupDest (if gx_dest gx = [] then ''goxz'' else gx_dest gx) w)))"
proof -
  obtain gx1 where p: "projDirStep gx w = (gx1, None)"
    using assms(1) by (cases "projDirStep gx w") auto
  have d: "gx_dest gx1 = gx_dest gx" using projDirStep_fields(4) [of gx w] p by simp
  obtain dest gx2 where g: "getDest (nameStep gx1) = (dest, gx2)" by (cases "getDest (nameStep gx1)")
  have dest: "dest = (if gx_dest gx = [] then ''goxz'' else gx_dest gx)"
    using getDest_fields(8) [of "nameStep gx1"] g d by simp
  obtain w1 where s: "setupDest dest w = (None, w1)"
    using assms(2) dest by (cases "setupDest dest w") auto
  show ?thesis
    using s by (simp add: init_def p g dest split: prod.splits)
qed

lemma parseArgs_pkgs:
  assumes "parseArgs args = Inr gx"
  shows "gx_pkgs gx =
           (case Parse args zeroGoxz of
              Inr (g, rest) \<Rightarrow> if rest = [] then [''.''] else rest
            | Inl err \<Rightarrow> [])"
  using assms by (auto simp: parseArgs_def split: sum.splits prod.splits)

lemma parseArgs_Nil: "parseArgs [] = Inr (zeroGoxz\<lparr>gx_pkgs := [''.'']\<rparr>)"
  by (simp add: parseArgs_def)

text \<open>
  Claim C8, on \<open>parseArgs\<close> followed by \<open>init\<close>, as \<open>run\<close> calls them. When the project
  directory is given or the working directory can be determined, and the destination
  can be set up, \<open>init\<close> leaves in the struct: the OS list \<open>linux darwin windows\<close> and the
  architecture list \<open>amd64\<close> where the list was empty, the base name of the project
  directory where the name was empty, the destination \<open>goxz\<close> where it was empty; the
  platforms are resolved from these lists. The packages are the positional arguments,
  and \<open>.\<close> alone when there is none; \<open>parseArgs\<close> sets them and \<open>init\<close> keeps them.
\<close>

theorem init_fills_defaults:
  assumes "parseArgs args = Inr gx"
      and "gx_projDir gx = [] \<longrightarrow> (\<exists>p. Abs ''.'' w = Inr p)"
      and "fst (setupDest (if gx_dest gx = [] then ''goxz'' else gx_dest gx) w) = None"
  shows "gx_os (fst (init gx w)) = (if gx_os gx = [] then ''linux darwin windows'' else gx_os gx)
       \<and> gx_arch (fst (init gx w)) = (if gx_arch gx = [] then ''amd64'' else gx_arch gx)
       \<and> resolvePlatforms (gx_os (fst (init gx w))) (gx_arch (fst (init gx w)))
           = Inr (gx_platforms (fst (init gx w)))
       \<and> gx_name (fst (init gx w))
           = (if gx_name gx = [] then Base (gx_projDir (fst (init gx w))) else gx_name gx)
       \<and> (gx_projDir gx \<noteq> [] \<longrightarrow> gx_projDir (fst (init gx w)) = gx_projDir gx)
       \<and> (gx_projDir gx = [] \<longrightarrow> Abs ''.'' w = Inr (gx_projDir (fst (init gx w))))
       \<and> gx_dest (fst (init gx w)) = (if gx_dest gx = [] then ''goxz'' else gx_dest gx)
       \<and> gx_pkgs (fst (init gx w))
           = (case Parse args zeroGoxz of
                Inr (g, rest) \<Rightarrow> if rest = [] then [''.''] else rest
              | Inl err \<Rightarrow> [])"
proof -
  let ?w1 = "snd (setupDest (if gx_dest gx = [] then ''goxz'' else gx_dest gx) w)"
  let ?g = "defaultsStep (snd (getDest (nameStep (fst (projDirStep gx w)))))"
  have n: "snd (projDirStep gx w) = None"
    using assms(2) by (auto simp: projDirStep_def)
  have i: "fst (init gx w) = fst (resolveStep ?g ?w1)"
    by (rule init_reached [OF n assms(3)])
  have pd: "gx_projDir (fst (init gx w)) = gx_projDir (fst (projDirStep gx w))"
    unfolding i by simp
  have p1: "gx_projDir gx \<noteq> [] \<longrightarrow> gx_projDir (fst (init gx w)) = gx_projDir gx"
    unfolding pd by (simp add: projDirStep_def)
  have p2: "gx_projDir gx = [] \<longrightarrow> Abs ''.'' w = Inr (gx_projDir (fst (init gx w)))"
    unfolding pd using assms(2) by (auto simp: projDirStep_def)
  have os: "gx_os (fst (init gx w)) = (if gx_os gx = [] then ''linux darwin windows'' else gx_os gx)"
    unfolding i by simp
  have ar: "gx_arch (fst (init gx w)) = (if gx_arch gx = [] then ''amd64'' else gx_arch gx)"
    unfolding i by simp
  have pl: "resolvePlatforms (gx_os (fst (init gx w))) (gx_arch (fst (init gx w)))
           = Inr (gx_platforms (fst (init gx w)))"
    using resolveStep_platforms [of ?g ?w1] unfolding i by simp
  have nm: "gx_name (fst (init gx w))
           = (if gx_name gx = [] then Base (gx_projDir (fst (init gx w))) else gx_name gx)"
    unfolding pd unfolding i by simp
  have de: "gx_dest (fst (init gx w)) = (if gx_dest gx = [] then ''goxz'' else gx_dest gx)"
    unfolding i by simp
  have "gx_pkgs (fst (init gx w)) = gx_pkgs gx"
    unfolding i by simp
  then have k: "gx_pkgs (fst (init gx w))
           = (case Parse args zeroGoxz of
                Inr (g, rest) \<Rightarrow> if rest = [] then [''.''] else rest
              | Inl err \<Rightarrow> [])"
    using parseArgs_pkgs [OF assms(1)] by simp
  show ?thesis
    by (rule conjI [OF os conjI [OF ar conjI [OF pl conjI [OF nm conjI [OF p1 conjI [OF p2 conjI [OF de k]]]]]]])
qed

text \<open>The theorem for a command line without arguments, in \<open>resourceWorld\<close>.\<close>

theorem init_fills_defaults_witness:
  "parseArgs [] = Inr (zeroGoxz\<lparr>gx_pkgs := [''.'']\<rparr>)
   \<and> Abs ''.'' resourceWorld = Inr ''/proj''
   \<and> fst (setupDest ''goxz'' resourceWorld) = None
   \<and> gx_os (fst (init (zeroGoxz\<lparr>gx_pkgs := [''.'']\<rparr>) resourceWorld)) = ''linux darwin windows''
   \<and> gx_arch (fst (init (zeroGoxz\<lparr>gx_pkgs := [''.'']\<rparr>) resourceWorld)) = ''amd64''
   \<and> gx_name (fst (init (zeroGoxz\<lparr>gx_pkgs := [''.'']\<rparr>) resourceWorld)) = ''proj''
   \<and> gx_dest (fst (init (zeroGoxz\<lparr>gx_pkgs := [''.'']\<rparr>) resourceWorld)) = ''goxz''
   \<and> gx_pkgs (fst (init (zeroGoxz\<lparr>gx_pkgs := [''.'']\<rparr>) resourceWorld)) = [''.'']"
proof -
  have a: "Abs ''.'' resourceWorld = Inr ''/proj''" by code_simp
  have s: "fst (setupDest ''goxz'' resourceWorld) = None" by code_simp
  have b: "Base ''/proj'' = ''proj''" by code_simp
  have z: "gx_projDir (zeroGoxz\<lparr>gx_pkgs := [''.'']\<rparr>) = []"
          "gx_dest (zeroGoxz\<lparr>gx_pkgs := [''.'']\<rparr>) = ''goxz''"
          "gx_os (zeroGoxz\<lparr>gx_pkgs := [''.'']\<rparr>) = []"
          "gx_arch (zeroGoxz\<lparr>gx_pkgs := [''.'']\<rparr>) = []"
          "gx_name (zeroGoxz\<lparr>gx_pkgs := [''.'']\<rparr>) = []"
    by (simp_all add: zeroGoxz_def)
  have h2: "gx_projDir (zeroGoxz\<lparr>gx_pkgs := [''.'']\<rparr>) = [] \<longrightarrow> (\<exists>p. Abs ''.'' resourceWorld = Inr p)"
    using a by simp
  have h3: "fst (setupDest (if gx_dest (zeroGoxz\<lparr>gx_pkgs := [''.'']\<rparr>) = [] then ''goxz''
                            else gx_dest (zeroGoxz\<lparr>gx_pkgs := [''.'']\<rparr>)) resourceWorld) = None"
    using s by (simp add: z)
  from init_fills_defaults [OF parseArgs_Nil h2 h3] a s b
  show ?thesis by (simp add: z parseArgs_Nil)
qed

section \<open>Path resolution and the names of \<open>ioutil.TempDir\<close>\<close>

lemma digit_range:
  assumes "0 \<le> d" "d < 10"
  shows "CHR ''0'' \<le> digit d \<and> digit d \<le> CHR ''9''"
proof -
  from assms have "d = 0 \<or> d = 1 \<or> d = 2 \<or> d = 3 \<or> d = 4 \<or> d = 5 \<or> d = 6 \<or> d = 7 \<or> d = 8 \<or> d = 9"
    by presburger
  moreover have "list_all (\<lambda>d. CHR ''0'' \<le> digit d \<and> digit d \<le> CHR ''9'') [0, 1, 2, 3, 4, 5, 6, 7, 8, 9]"
    by code_simp
  ultimately show ?thesis
    by (elim disjE) simp_all
qed

lemma Uitoa_digits: "0 \<le> n \<Longrightarrow> digits (Uitoa n)"
proof (induction n rule: Uitoa.induct)
  case (1 n)
  show ?case
  proof (cases "n < 10")
    case True
    with 1 digit_range [of n] show ?thesis
      by (simp add: Uitoa.simps [of n] digits_def)
  next
    case False
    with 1 have "digits (Uitoa (n div 10))" by simp
    moreover have "CHR ''0'' \<le> digit (n mod 10) \<and> digit (n mod 10) \<le> CHR ''9''"
      by (rule digit_range) simp_all
    ultimately show ?thesis using False
      by (simp add: Uitoa.simps [of n] digits_def)
  qed
qed

lemma digits_no_slash: "digits s \<Longrightarrow> CHR ''/'' \<notin> set s"
  by (auto simp: digits_def list_all_iff less_eq_char_def)

lemma digits_last: "digits s \<Longrightarrow> s \<noteq> [] \<and> last s \<noteq> CHR ''/''"
proof -
  assume d: "digits s"
  then have n: "s \<noteq> []" by (simp add: digits_def)
  then have "last s \<in> set s" by (rule last_in_set)
  with digits_no_slash [OF d] n show ?thesis by metis
qed

lemma trimSlashes_id: "p \<noteq> [] \<Longrightarrow> last p \<noteq> CHR ''/'' \<Longrightarrow> trimSlashes p = p"
  by (cases p rule: rev_cases) (simp_all add: trimSlashes_def)

lemma walk_append:
  "walk ns cur (es @ fs) = (case walk ns cur es of Inl e \<Rightarrow> Inl e | Inr c \<Rightarrow> walk ns c fs)"
  by (induction es arbitrary: cur) (auto split: option.splits)

lemma walk_name:
  assumes "n \<noteq> []" "n \<noteq> ''.''" "n \<noteq> ''..''"
  shows "walk ns c [n] = Inr k \<longleftrightarrow> map_of ns c = Some ModeDir \<and> k = child c n"
  using assms by (auto split: option.splits)

lemma walk_empty:
  "map_of ns c = Some ModeDir \<Longrightarrow> walk ns c [[]] = Inr c"
  by simp

lemma walk_mono:
  assumes "\<And>x. map_of ns x = Some ModeDir \<Longrightarrow> map_of ns' x = Some ModeDir"
  shows "walk ns cur es = Inr k \<Longrightarrow> walk ns' cur es = Inr k"
proof (induction es arbitrary: cur)
  case Nil
  then show ?case by simp
next
  case (Cons e es)
  from Cons.prems have d: "map_of ns cur = Some ModeDir"
    by (auto split: option.splits if_splits)
  with assms have d': "map_of ns' cur = Some ModeDir" by blast
  from Cons.prems d have "walk ns (if e = [] \<or> e = ''.'' then cur
                        else if e = ''..'' then parent cur
                        else child cur e) es = Inr k" by simp
  from Cons.IH [OF this] d' show ?case by simp
qed

lemma locate_mono:
  assumes "\<And>x. map_of (nodes w) x = Some ModeDir \<Longrightarrow> map_of (nodes v) x = Some ModeDir"
      and "cwd v = cwd w" and "locate w p = Some k"
  shows "locate v p = Some k"
proof -
  from assms(3) have r: "resolve w p = Inr k" by (auto simp: locate_def split: sum.splits)
  have "resolve v p = Inr k"
  proof (cases "p = []")
    case True with r show ?thesis by (simp add: resolve_def)
  next
    case False
    show ?thesis
    proof (cases "IsAbs p")
      case True
      with r False have "walk (nodes w) ''/'' (elements p) = Inr k" by (simp add: resolve_def)
      from walk_mono [of "nodes w" "nodes v", OF assms(1) this] True False show ?thesis
        by (simp add: resolve_def)
    next
      case ab: False
      with r False obtain wd where c: "cwd w = Some wd" and "walk (nodes w) wd (elements p) = Inr k"
        by (auto simp: resolve_def split: option.splits)
      from walk_mono [of "nodes w" "nodes v", OF assms(1) this(2)] ab False c assms(2) show ?thesis
        by (simp add: resolve_def)
    qed
  qed
  then show ?thesis by (simp add: locate_def)
qed

lemma joinPath_split:
  assumes "d \<noteq> []"
  shows "\<exists>q. joinPath d n = q @ CHR ''/'' # n \<and> (d = q \<or> d = q @ ''/'') \<and> IsAbs (q @ CHR ''/'' # n) = IsAbs d"
proof (cases "last d = CHR ''/''")
  case True
  with assms obtain q where q: "d = q @ ''/''" by (cases d rule: rev_cases) auto
  have "IsAbs (q @ CHR ''/'' # n) = IsAbs d" unfolding q by (cases q) (auto simp: IsAbs_def HasPrefix_def)
  with q True assms show ?thesis by (auto simp: joinPath_def)
next
  case False
  have "IsAbs (d @ CHR ''/'' # n) = IsAbs d" using assms by (cases d) (auto simp: IsAbs_def HasPrefix_def)
  with False show ?thesis by (auto simp: joinPath_def)
qed

lemma resolve_joinPath:
  assumes d: "d \<noteq> []" and n: "n \<noteq> []" "n \<noteq> ''.''" "n \<noteq> ''..''" "CHR ''/'' \<notin> set n"
      and r: "resolve w (joinPath d n) = Inr k"
  shows "\<exists>dk. resolve w d = Inr dk \<and> map_of (nodes w) dk = Some ModeDir \<and> k = child dk n"
proof -
  from joinPath_split [OF d, of n] obtain q where j: "joinPath d n = q @ CHR ''/'' # n"
    and dq: "d = q \<or> d = q @ ''/''" and ab: "IsAbs (q @ CHR ''/'' # n) = IsAbs d"
    by blast
  have el: "elements (q @ CHR ''/'' # n) = elements q @ [n]"
    using n(4) by (simp add: elements_append elements_single)
  have eld: "elements d = elements q \<or> elements d = elements q @ [[]]"
    using dq elements_append [of q "[]"] by auto
  define start where "start = (if IsAbs d then Some ''/'' else cwd w)"
  have rj: "resolve w (q @ CHR ''/'' # n)
            = (case start of None \<Rightarrow> Inl ENOENT | Some s \<Rightarrow> walk (nodes w) s (elements q @ [n]))"
    unfolding resolve_def ab el start_def by (simp split: option.splits)
  have rd: "resolve w d
            = (case start of None \<Rightarrow> Inl ENOENT | Some s \<Rightarrow> walk (nodes w) s (elements d))"
    unfolding resolve_def start_def using d by (simp split: option.splits)
  from r j rj obtain s where s: "start = Some s" and w: "walk (nodes w) s (elements q @ [n]) = Inr k"
    by (auto split: option.splits)
  from w obtain dk where wq: "walk (nodes w) s (elements q) = Inr dk" and wn: "walk (nodes w) dk [n] = Inr k"
    by (auto simp: walk_append split: sum.splits)
  from wn walk_name [OF n(1,2,3), of "nodes w" dk k]
  have dir: "map_of (nodes w) dk = Some ModeDir" and k: "k = child dk n"
    by blast+
  have "walk (nodes w) s (elements d) = Inr dk"
    using eld wq dir by (auto simp: walk_append)
  with rd s dir k show ?thesis by simp
qed

section \<open>The working directory\<close>

lemma Mkdir_None:
  assumes "Mkdir p w = (None, w')"
  shows "\<exists>k. resolve w (trimSlashes p) = Inr k \<and> map_of (nodes w) k = None
            \<and> w' = w\<lparr>nodes := nodes w @ [(k, ModeDir)]\<rparr>"
  using assms by (auto simp: Mkdir_def split: sum.splits option.splits if_splits)

lemma Mkdir_Some: "Mkdir p w = (Some e, w') \<Longrightarrow> w' = w"
  by (auto simp: Mkdir_def split: sum.splits option.splits if_splits)

lemma resolve_drawn [simp]: "resolve (w\<lparr>drawn := n\<rparr>) p = resolve w p"
  by (simp add: resolve_def split: option.splits)

lemma nextRandom_digits:
  "nextRandom w = (r, w1) \<Longrightarrow> digits r \<and> w1 = w\<lparr>drawn := Suc (drawn w)\<rparr>"
  using Uitoa_digits [of "suffixes w (drawn w) mod 4294967296"]
  by (auto simp: nextRandom_def)

lemma tempDirLoop_None:
  assumes "tempDirLoop n dir pfx sfx w = ((name, None), w')"
  shows "\<exists>r k. digits r \<and> name = pfx @ r @ sfx \<and> resolve w (trimSlashes name) = Inr k
            \<and> map_of (nodes w) k = None
            \<and> nodes w' = nodes w @ [(k, ModeDir)] \<and> cwd w' = cwd w \<and> logged w' = logged w"
  using assms
proof (induction n arbitrary: w)
  case 0
  then show ?case by simp
next
  case (Suc n)
  obtain r w1 where nr: "nextRandom w = (r, w1)" by (cases "nextRandom w")
  from nextRandom_digits [OF nr] have dg: "digits r" and w1: "w1 = w\<lparr>drawn := Suc (drawn w)\<rparr>"
    by simp_all
  obtain res w2 where mk: "Mkdir (pfx @ r @ sfx) w1 = (res, w2)" by (cases "Mkdir (pfx @ r @ sfx) w1")
  show ?case
  proof (cases res)
    case None
    with Suc.prems nr mk have n: "name = pfx @ r @ sfx" and w': "w' = w2" by simp_all
    from Mkdir_None [of "pfx @ r @ sfx" w1 w2] mk None
    obtain k where "resolve w1 (trimSlashes (pfx @ r @ sfx)) = Inr k" "map_of (nodes w1) k = None"
      "w2 = w1\<lparr>nodes := nodes w1 @ [(k, ModeDir)]\<rparr>"
      by auto
    with n w' w1 dg show ?thesis by auto
  next
    case (Some e)
    with mk have w2: "w2 = w1" using Mkdir_Some by blast
    from Suc.prems nr mk Some have ex: "IsExist e"
      by (auto split: if_splits sum.splits)
    with Suc.prems nr mk Some w2 have "tempDirLoop n dir pfx sfx w1 = ((name, None), w')"
      by simp
    from Suc.IH [OF this] show ?thesis by (simp add: w1)
  qed
qed

lemma Join_nonempty: "e \<noteq> [] \<Longrightarrow> Join (e # es) \<noteq> []"
  by (simp add: Clean_nonempty)

lemma Abs_nonempty: "Abs p w = Inr q \<Longrightarrow> p \<noteq> [] \<Longrightarrow> q \<noteq> []"
  by (auto simp: Abs_def Getwd_def Clean_nonempty split: if_splits option.splits sum.splits)

lemma joinPath_append: "joinPath d (a @ b) = joinPath d a @ b"
  by (simp add: joinPath_def)

lemma digits_end:
  assumes "digits r"
  shows "x @ r \<noteq> [] \<and> trimSlashes (x @ r) = x @ r \<and> \<not> endsWithDot (x @ r)"
proof -
  from assms have n: "r \<noteq> []" by (simp add: digits_def)
  then have l: "last (x @ r) = last r" by simp
  from n have "last r \<in> set r" by (rule last_in_set)
  with assms have "CHR ''0'' \<le> last r" by (auto simp: digits_def list_all_iff)
  then have d: "last r \<noteq> CHR ''.''" "last r \<noteq> CHR ''/''" by (auto simp: less_eq_char_def)
  have "last p = CHR ''.''" if "endsWithDot p" for p
    using that by (cases p rule: rev_cases) (auto simp: endsWithDot_def HasSuffix_def)
  with l d have "\<not> endsWithDot (x @ r)" by metis
  moreover have "trimSlashes (x @ r) = x @ r"
    using n l d by (intro trimSlashes_id) simp_all
  ultimately show ?thesis using n by simp
qed

lemma prepareWorkdir_None:
  assumes "prepareWorkdir gx w = (gx2, w2, None)" and "gx_projDir gx \<noteq> []"
  shows "\<exists>r k. digits r
            \<and> gx2 = gx\<lparr>gx_workDir := joinPath (gx_projDir gx) (''.goxz-'' @ r)\<rparr>
            \<and> resolve w (gx_workDir gx2) = Inr k
            \<and> map_of (nodes w) k = None
            \<and> nodes w2 = nodes w @ [(k, ModeDir)] \<and> cwd w2 = cwd w \<and> logged w2 = logged w"
proof -
  have ps: "prefixAndSuffix ''.goxz-'' = Inr (''.goxz-'', [])"
    by (simp add: prefixAndSuffix_def)
  from assms obtain name
    where t: "tempDirLoop 10000 (gx_projDir gx) (joinPath (gx_projDir gx) ''.goxz-'') [] w
                = ((name, None), w2)"
      and g: "gx2 = gx\<lparr>gx_workDir := name\<rparr>"
    by (auto simp: prepareWorkdir_def TempDir_def ps Let_def split: prod.splits)
  from tempDirLoop_None [OF t] obtain r k where dg: "digits r"
    and n: "name = joinPath (gx_projDir gx) ''.goxz-'' @ r @ []"
    and rs: "resolve w (trimSlashes name) = Inr k"
    and rest: "map_of (nodes w) k = None" "nodes w2 = nodes w @ [(k, ModeDir)]"
              "cwd w2 = cwd w" "logged w2 = logged w"
    by blast
  from n have n': "name = joinPath (gx_projDir gx) (''.goxz-'' @ r)"
    unfolding joinPath_append by simp
  from digits_end [OF dg, of "joinPath (gx_projDir gx) ''.goxz-''"] n
  have "trimSlashes name = name" by simp
  with rs have "resolve w name = Inr k" by simp
  with dg g n' rest show ?thesis by auto
qed

lemma map_of_grows:
  "map_of ns x = Some m \<Longrightarrow> map_of (ns @ extra) x = Some m"
  by (simp add: map_add_Some_iff)

lemma buildLoop_locate:
  assumes "\<forall>bdr v. locate v p = Some k \<longrightarrow> locate (snd (build bdr v)) p = Some k"
  shows "locate w p = Some k \<Longrightarrow> locate (snd (buildLoop build bdrs w)) p = Some k"
proof (induction bdrs arbitrary: w)
  case Nil
  then show ?case by simp
next
  case (Cons bdr bdrs)
  obtain r w1 where b: "build bdr w = (r, w1)" by (cases "build bdr w")
  with assms Cons.prems have c: "locate w1 p = Some k" by (metis snd_conv)
  show ?case using Cons.IH [OF c] b c by (cases r) simp_all
qed

lemma buildLoop_logged:
  assumes "\<forall>bdr v. prefix (logged v) (logged (snd (build bdr v)))"
  shows "prefix (logged w) (logged (snd (buildLoop build bdrs w)))"
proof (induction bdrs arbitrary: w)
  case Nil
  show ?case by simp
next
  case (Cons bdr bdrs)
  obtain r w1 where b: "build bdr w = (r, w1)" by (cases "build bdr w")
  with assms have c: "prefix (logged w) (logged w1)" by (metis snd_conv)
  from Cons.IH [of w1] c have "prefix (logged w) (logged (snd (buildLoop build bdrs w1)))"
    by (rule prefix_order.trans [rotated])
  with b c show ?case by (cases r) simp_all
qed

lemma RemoveAll_nodes:
  assumes "p \<noteq> []" "\<not> endsWithDot p" "trimSlashes p = p" "locate w p = Some k"
  shows "nodes (RemoveAll p w) = filter (\<lambda>(q, m). \<not> inside k q) (nodes w)"
  using assms by (auto simp: RemoveAll_def locate_def split: sum.splits)

lemma RemoveAll_logged [simp]: "logged (RemoveAll p w) = logged w"
  by (simp add: RemoveAll_def split: sum.splits)

lemma Chdir_nodes [simp]:
  "nodes (snd (Chdir p w)) = nodes w" "logged (snd (Chdir p w)) = logged w"
  by (auto simp: Chdir_def split: sum.splits prod.splits)

lemma init_None:
  assumes "init gx w = (gx1, w1, None)"
  shows "gx_projDir gx1 \<noteq> [] \<and> gx_work gx1 = gx_work gx"
proof -
  obtain g e where p: "projDirStep gx w = (g, e)" by (cases "projDirStep gx w")
  with assms have e: "e = None" by (cases e) (simp_all add: init_def)
  obtain dest g2 where d: "getDest (nameStep g) = (dest, g2)" by (cases "getDest (nameStep g)")
  obtain e2 w2 where s: "setupDest dest w = (e2, w2)" by (cases "setupDest dest w")
  with assms p e d have e2: "e2 = None" by (cases e2) (simp_all add: init_def)
  from assms p e d s e2 have g1: "gx1 = fst (resolveStep (defaultsStep g2) w2)"
    by (auto simp: init_def split: prod.splits)
  have g2: "g2 = snd (getDest (nameStep g))" using d by simp
  have g: "g = fst (projDirStep gx w)" using p by simp
  have "gx_projDir g \<noteq> []"
    using p e Abs_nonempty [of "''.''" w]
    by (auto simp: projDirStep_def split: if_splits sum.splits)
  moreover have "gx_projDir gx1 = gx_projDir g" unfolding g1 g2 by simp
  moreover have "gx_work gx1 = gx_work gx" unfolding g1 g2 g by simp
  ultimately show ?thesis by simp
qed

lemma prepared_parts:
  assumes "prepared args w = Some (gx, w1, w2)"
  shows "\<exists>g0 w0 g1. parseArgs args = Inr g0 \<and> entered g0 w = Some w0
           \<and> init g0 w0 = (g1, w1, None) \<and> prepareWorkdir g1 w1 = (gx, w2, None)"
  using assms
  by (auto simp: prepared_def split: sum.splits option.splits prod.splits)

lemma afterInit_prepared:
  assumes "init g0 w0 = (g1, w1, None)" and "prepareWorkdir g1 w1 = (gx, w2, None)"
  shows "afterInit build g0 w0 =
          (if fst (buildLoop build (builders gx)
                     (started gx w2))
           then Panics else Returns None,
           if \<not> gx_work gx
           then RemoveAll (gx_workDir gx)
                  (snd (buildLoop build (builders gx)
                     (started gx w2)))
           else snd (buildLoop build (builders gx)
                     (started gx w2)))"
  using assms by (simp add: afterInit_def started_def Let_def split: prod.splits)

lemma run_entered:
  assumes "parseArgs args = Inr g0" and "entered g0 w = Some w0"
  shows "fst (run build args w) = fst (afterInit build g0 w0)
       \<and> nodes (snd (run build args w)) = nodes (snd (afterInit build g0 w0))
       \<and> logged (snd (run build args w)) = logged (snd (afterInit build g0 w0))"
  using assms
  by (auto simp: run_def entered_def split: sum.splits option.splits prod.splits if_splits)



lemma locate_grows:
  assumes "cwd v' = cwd v" and "nodes v' = nodes v @ extra" and "locate v p = Some k"
  shows "locate v' p = Some k"
proof (rule locate_mono [OF _ assms(1) assms(3)])
  fix x
  assume "map_of (nodes v) x = Some ModeDir"
  then show "map_of (nodes v') x = Some ModeDir"
    unfolding assms(2) by (rule map_of_grows)
qed

lemma resolve_logged [simp]: "resolve (w\<lparr>logged := l\<rparr>) p = resolve w p"
  by (simp add: resolve_def split: option.splits)

lemma locate_started [simp]: "locate (started gx w) p = locate w p"
  by (simp add: started_def Printf_def locate_def)

lemma resolve_locate: "resolve w p = Inr k \<longleftrightarrow> locate w p = Some k"
  by (simp add: locate_def split: sum.splits)

lemma Mkdir_grows:
  "cwd (snd (Mkdir q v)) = cwd v \<and> logged (snd (Mkdir q v)) = logged v
   \<and> (\<exists>extra. nodes (snd (Mkdir q v)) = nodes v @ extra)"
  by (auto simp: Mkdir_def split: sum.splits option.splits)

lemma sampleBuild_grows:
  "cwd (snd (sampleBuild bdr v)) = cwd v \<and> logged (snd (sampleBuild bdr v)) = logged v
   \<and> (\<exists>extra. nodes (snd (sampleBuild bdr v)) = nodes v @ extra)"
  by (auto simp: sampleBuild_def Let_def split: option.splits)

lemma stagingBuild_grows:
  "cwd (snd (stagingBuild bdr v)) = cwd v \<and> logged (snd (stagingBuild bdr v)) = logged v
   \<and> (\<exists>extra. nodes (snd (stagingBuild bdr v)) = nodes v @ extra)"
proof -
  let ?q = "Join [bdr_workDirBase bdr, os (bdr_platform bdr) @ ''_'' @ arch (bdr_platform bdr)]"
  let ?v1 = "snd (Mkdir ?q v)"
  have s: "stagingBuild bdr v = sampleBuild bdr ?v1"
    unfolding stagingBuild_def by (cases "Mkdir ?q v") simp
  from Mkdir_grows [of ?q v] obtain e1 where a: "cwd ?v1 = cwd v" "logged ?v1 = logged v"
    "nodes ?v1 = nodes v @ e1" by blast
  from sampleBuild_grows [of bdr ?v1] obtain e2 where b: "cwd (snd (sampleBuild bdr ?v1)) = cwd ?v1"
    "logged (snd (sampleBuild bdr ?v1)) = logged ?v1" "nodes (snd (sampleBuild bdr ?v1)) = nodes ?v1 @ e2"
    by blast
  from a b have "nodes (snd (sampleBuild bdr ?v1)) = nodes v @ (e1 @ e2)" by simp
  with a b show ?thesis unfolding s by metis
qed

lemma stagingBuild_locate:
  "\<forall>bdr v k. locate v p = Some k \<longrightarrow> locate (snd (stagingBuild bdr v)) p = Some k"
  using stagingBuild_grows locate_grows by blast

lemma stagingBuild_logged: "\<forall>bdr v. prefix (logged v) (logged (snd (stagingBuild bdr v)))"
  using stagingBuild_grows by simp

text \<open>
  Claim C9. In a run that gets as far as its builders, the working directory is a new
  directory in the project directory, which is the directory that the path \<open>gx.projDir\<close>
  leads to when \<open>prepareWorkdir\<close> is called: its path is \<open>gx.projDir\<close>, a slash and the
  name \<open>.goxz-\<close> followed by a number in decimal digits, its node is the node of that
  name in the project directory, no node was there before, and a directory is there
  afterwards. Whether the builders return, fail or panic, \<open>run\<close> ends as follows.
  With \<open>-work\<close> the path is written to the log before the first build, as the line after
  what was logged before, nothing is removed, and when the builders only add to the log,
  the line is in the log of the run. Without \<open>-work\<close> nothing is written and the final
  file system is the one the builders left, less the working directory and everything
  below it. The builders are taken to leave the path of the working directory leading
  to where it leads: they do not change the working directory of the process or replace
  the directories on the way.
\<close>

theorem workspace_lifecycle:
  assumes "prepared args w = Some (gx, w1, w2)"
      and "\<forall>bdr v k. locate v (gx_workDir gx) = Some k
             \<longrightarrow> locate (snd (build bdr v)) (gx_workDir gx) = Some k"
  shows "\<exists>sfx d k.
           digits sfx
         \<and> gx_workDir gx = joinPath (gx_projDir gx) (''.goxz-'' @ sfx)
         \<and> gx_projDir gx \<noteq> []
         \<and> (\<exists>g0. parseArgs args = Inr g0 \<and> gx_work gx = gx_work g0)
         \<and> locate w1 (gx_projDir gx) = Some d
         \<and> map_of (nodes w1) d = Some ModeDir
         \<and> locate w1 (gx_workDir gx) = Some k
         \<and> k = (if d = ''/'' then d else d @ ''/'') @ ''.goxz-'' @ sfx
         \<and> map_of (nodes w1) k = None
         \<and> nodes w2 = nodes w1 @ [(k, ModeDir)]
         \<and> fst (run build args w)
             = (if fst (buildLoop build (builders gx) (started gx w2)) then Panics else Returns None)
         \<and> logged (snd (run build args w))
             = logged (snd (buildLoop build (builders gx) (started gx w2)))
         \<and> (gx_work gx \<longrightarrow>
              logged (started gx w2) = logged w1 @ [LogWorkingDir (gx_workDir gx)]
              \<and> nodes (started gx w2) = nodes w2
              \<and> nodes (snd (run build args w))
                  = nodes (snd (buildLoop build (builders gx) (started gx w2)))
              \<and> ((\<forall>bdr v. prefix (logged v) (logged (snd (build bdr v)))) \<longrightarrow>
                    prefix (logged w1 @ [LogWorkingDir (gx_workDir gx)])
                      (logged (snd (run build args w)))))
         \<and> (\<not> gx_work gx \<longrightarrow>
              started gx w2 = w2
              \<and> nodes (snd (run build args w))
                  = filter (\<lambda>(q, m). q \<noteq> k \<and> \<not> HasPrefix q (k @ ''/''))
                      (nodes (snd (buildLoop build (builders gx) (started gx w2)))))"
proof -
  let ?wB = "snd (buildLoop build (builders gx) (started gx w2))"
  from prepared_parts [OF assms(1)] obtain g0 w0 g1
    where pa: "parseArgs args = Inr g0" and en: "entered g0 w = Some w0"
      and ini: "init g0 w0 = (g1, w1, None)" and pw: "prepareWorkdir g1 w1 = (gx, w2, None)"
    by blast
  from init_None [OF ini] have pd: "gx_projDir g1 \<noteq> []" and wk: "gx_work g1 = gx_work g0"
    by simp_all
  from prepareWorkdir_None [OF pw pd] obtain sfx k
    where dg: "digits sfx"
      and gx: "gx = g1\<lparr>gx_workDir := joinPath (gx_projDir g1) (''.goxz-'' @ sfx)\<rparr>"
      and rs: "resolve w1 (gx_workDir gx) = Inr k"
      and fresh: "map_of (nodes w1) k = None"
      and made: "nodes w2 = nodes w1 @ [(k, ModeDir)]"
      and cw: "cwd w2 = cwd w1"
      and lw: "logged w2 = logged w1"
    by blast
  have wd: "gx_workDir gx = joinPath (gx_projDir gx) (''.goxz-'' @ sfx)"
    and pd': "gx_projDir gx \<noteq> []" and wk': "gx_work gx = gx_work g0"
    using pd wk by (simp_all add: gx)
  have lo: "locate w1 (gx_workDir gx) = Some k"
    using rs by (simp add: resolve_locate)
  have nm: "''.goxz-'' @ sfx \<noteq> []" "''.goxz-'' @ sfx \<noteq> ''.''" "''.goxz-'' @ sfx \<noteq> ''..''"
    "CHR ''/'' \<notin> set (''.goxz-'' @ sfx)"
    using digits_no_slash [OF dg] by simp_all
  from resolve_joinPath [OF pd' nm rs [unfolded wd]] obtain d
    where ld: "locate w1 (gx_projDir gx) = Some d"
      and dd: "map_of (nodes w1) d = Some ModeDir"
      and kd: "k = child d (''.goxz-'' @ sfx)"
    unfolding resolve_locate by blast
  have kc: "k = (if d = ''/'' then d else d @ ''/'') @ ''.goxz-'' @ sfx"
    unfolding kd child_def by simp
  have "CHR ''.'' \<in> set k" unfolding kc by simp
  then have kr: "k \<noteq> ''/''" by auto
  have ins: "(\<not> inside k q) = (q \<noteq> k \<and> \<not> HasPrefix q (k @ ''/''))" for q
    using kr by (simp add: inside_def)
  note r = run_entered [OF pa en, of build] afterInit_prepared [OF ini pw, of build]
  have res: "fst (run build args w)
             = (if fst (buildLoop build (builders gx) (started gx w2)) then Panics else Returns None)"
    using r by simp
  have lg: "logged (snd (run build args w)) = logged ?wB"
    using r by simp
  have fin: "nodes (snd (run build args w))
             = nodes (if \<not> gx_work gx then RemoveAll (gx_workDir gx) ?wB else ?wB)"
    using r by simp
  have keep: "gx_work gx \<longrightarrow>
              logged (started gx w2) = logged w1 @ [LogWorkingDir (gx_workDir gx)]
              \<and> nodes (started gx w2) = nodes w2
              \<and> nodes (snd (run build args w)) = nodes ?wB
              \<and> ((\<forall>bdr v. prefix (logged v) (logged (snd (build bdr v)))) \<longrightarrow>
                    prefix (logged w1 @ [LogWorkingDir (gx_workDir gx)])
                      (logged (snd (run build args w))))"
  proof (intro impI conjI)
    assume k: "gx_work gx"
    then show st: "logged (started gx w2) = logged w1 @ [LogWorkingDir (gx_workDir gx)]"
      by (simp add: started_def Printf_def lw)
    from k show "nodes (started gx w2) = nodes w2"
      by (simp add: started_def Printf_def)
    from k show "nodes (snd (run build args w)) = nodes ?wB"
      unfolding fin by simp
    assume "\<forall>bdr v. prefix (logged v) (logged (snd (build bdr v)))"
    from buildLoop_logged [OF this, of "started gx w2" "builders gx"]
    show "prefix (logged w1 @ [LogWorkingDir (gx_workDir gx)]) (logged (snd (run build args w)))"
      unfolding lg st .
  qed
  have "locate w2 (gx_workDir gx) = Some k"
    by (rule locate_grows [OF cw made lo])
  then have "locate (started gx w2) (gx_workDir gx) = Some k" by simp
  from buildLoop_locate [of "gx_workDir gx" k build, OF _ this, of "builders gx"] assms(2)
  have "locate ?wB (gx_workDir gx) = Some k" by blast
  with digits_end [OF dg, of "joinPath (gx_projDir gx) ''.goxz-''"]
  have "nodes (RemoveAll (gx_workDir gx) ?wB) = filter (\<lambda>(q, m). \<not> inside k q) (nodes ?wB)"
    unfolding wd joinPath_append by (intro RemoveAll_nodes) simp_all
  then have ra: "nodes (RemoveAll (gx_workDir gx) ?wB)
                 = filter (\<lambda>(q, m). q \<noteq> k \<and> \<not> HasPrefix q (k @ ''/'')) (nodes ?wB)"
    unfolding ins .
  have rem: "\<not> gx_work gx \<longrightarrow>
              started gx w2 = w2
              \<and> nodes (snd (run build args w))
                  = filter (\<lambda>(q, m). q \<noteq> k \<and> \<not> HasPrefix q (k @ ''/'')) (nodes ?wB)"
  proof (intro impI conjI)
    assume n: "\<not> gx_work gx"
    then show "started gx w2 = w2"
      by (simp add: started_def)
    from n have "nodes (snd (run build args w)) = nodes (RemoveAll (gx_workDir gx) ?wB)"
      unfolding fin by simp
    then show "nodes (snd (run build args w))
                 = filter (\<lambda>(q, m). q \<noteq> k \<and> \<not> HasPrefix q (k @ ''/'')) (nodes ?wB)"
      by (simp only: ra)
  qed
  have g0: "\<exists>g0. parseArgs args = Inr g0 \<and> gx_work gx = gx_work g0"
    using pa wk' by blast
  show ?thesis
    by (rule exI [of _ sfx], rule exI [of _ d], rule exI [of _ k])
       (rule conjI [OF dg conjI [OF wd conjI [OF pd' conjI [OF g0 conjI [OF ld conjI [OF dd
          conjI [OF lo conjI [OF kc conjI [OF fresh conjI [OF made conjI [OF res
          conjI [OF lg conjI [OF keep rem]]]]]]]]]]]]])
qed

text \<open>
  The theorem for the command lines \<open>-work\<close> and the empty one, in \<open>resourceWorld\<close>, with
  the build that makes a staging directory for each platform in the working directory
  \<open>/proj/.goxz-123456789\<close>. With \<open>-work\<close> the path is the one line of the log, and the
  working directory and the three staging directories are there when the run has ended;
  without \<open>-work\<close> nothing is logged and none of them is there. With \<open>-C .\<close> the path of
  the working directory is \<open>./.goxz-123456789\<close>.
\<close>

theorem workspace_lifecycle_witness:
  "map_option (\<lambda>(gx, w1, w2). (gx_workDir gx, gx_work gx, map_of (nodes w1) ''/proj/.goxz-123456789'',
                                 map_of (nodes w2) ''/proj/.goxz-123456789''))
     (prepared [''-work''] resourceWorld)
     = Some (''/proj/.goxz-123456789'', True, None, Some ModeDir)
   \<and> (case run stagingBuild [''-work''] resourceWorld of
         (r, v) \<Rightarrow> (r, logged v, filter (\<lambda>(q, m). HasPrefix q ''/proj/.goxz-123456789'') (nodes v)))
       = (Returns None,
          [LogWorkingDir ''/proj/.goxz-123456789''],
          [(''/proj/.goxz-123456789'', ModeDir),
           (''/proj/.goxz-123456789/linux_amd64'', ModeDir),
           (''/proj/.goxz-123456789/darwin_amd64'', ModeDir),
           (''/proj/.goxz-123456789/windows_amd64'', ModeDir)])
   \<and> map_option (\<lambda>(gx, w1, w2). (gx_workDir gx, gx_work gx, map_of (nodes w1) ''/proj/.goxz-123456789'',
                                   map_of (nodes w2) ''/proj/.goxz-123456789''))
        (prepared [] resourceWorld)
       = Some (''/proj/.goxz-123456789'', False, None, Some ModeDir)
   \<and> (case run stagingBuild [] resourceWorld of
         (r, v) \<Rightarrow> (r, logged v, filter (\<lambda>(q, m). HasPrefix q ''/proj/.goxz-123456789'') (nodes v)))
       = (Returns None, [], [])
   \<and> (case run stagingBuild [''-C'', ''.'', ''-work''] resourceWorld of
         (r, v) \<Rightarrow> (r, logged v, filter (\<lambda>(q, m). HasPrefix q ''/proj/.goxz-123456789'') (nodes v)))
       = (Returns None,
          [LogWorkingDir ''./.goxz-123456789''],
          [(''/proj/.goxz-123456789'', ModeDir),
           (''/proj/.goxz-123456789/linux_amd64'', ModeDir),
           (''/proj/.goxz-123456789/darwin_amd64'', ModeDir),
           (''/proj/.goxz-123456789/windows_amd64'', ModeDir)])
   \<and> (\<exists>gx w1 w2 sfx d k. prepared [''-work''] resourceWorld = Some (gx, w1, w2)
         \<and> digits sfx
         \<and> gx_workDir gx = joinPath (gx_projDir gx) (''.goxz-'' @ sfx)
         \<and> locate w1 (gx_projDir gx) = Some d
         \<and> k = (if d = ''/'' then d else d @ ''/'') @ ''.goxz-'' @ sfx
         \<and> nodes w2 = nodes w1 @ [(k, ModeDir)]
         \<and> prefix (logged w1 @ [LogWorkingDir (gx_workDir gx)])
              (logged (snd (run stagingBuild [''-work''] resourceWorld))))
   \<and> (\<exists>gx w1 w2 k. prepared [] resourceWorld = Some (gx, w1, w2)
         \<and> locate w1 (gx_workDir gx) = Some k
         \<and> nodes (snd (run stagingBuild [] resourceWorld))
             = filter (\<lambda>(q, m). q \<noteq> k \<and> \<not> HasPrefix q (k @ ''/''))
                 (nodes (snd (buildLoop stagingBuild (builders gx) (started gx w2)))))"
proof -
  have e1: "map_option (\<lambda>(gx, w1, w2). (gx_workDir gx, gx_work gx, map_of (nodes w1) ''/proj/.goxz-123456789'',
                                 map_of (nodes w2) ''/proj/.goxz-123456789''))
     (prepared [''-work''] resourceWorld)
     = Some (''/proj/.goxz-123456789'', True, None, Some ModeDir)"
    by code_simp
  have e2: "(case run stagingBuild [''-work''] resourceWorld of
         (r, v) \<Rightarrow> (r, logged v, filter (\<lambda>(q, m). HasPrefix q ''/proj/.goxz-123456789'') (nodes v)))
       = (Returns None,
          [LogWorkingDir ''/proj/.goxz-123456789''],
          [(''/proj/.goxz-123456789'', ModeDir),
           (''/proj/.goxz-123456789/linux_amd64'', ModeDir),
           (''/proj/.goxz-123456789/darwin_amd64'', ModeDir),
           (''/proj/.goxz-123456789/windows_amd64'', ModeDir)])"
    by code_simp
  have e3: "map_option (\<lambda>(gx, w1, w2). (gx_workDir gx, gx_work gx, map_of (nodes w1) ''/proj/.goxz-123456789'',
                                   map_of (nodes w2) ''/proj/.goxz-123456789''))
        (prepared [] resourceWorld)
       = Some (''/proj/.goxz-123456789'', False, None, Some ModeDir)"
    by code_simp
  have e4: "(case run stagingBuild [] resourceWorld of
         (r, v) \<Rightarrow> (r, logged v, filter (\<lambda>(q, m). HasPrefix q ''/proj/.goxz-123456789'') (nodes v)))
       = (Returns None, [], [])"
    by code_simp
  have e5: "(case run stagingBuild [''-C'', ''.'', ''-work''] resourceWorld of
         (r, v) \<Rightarrow> (r, logged v, filter (\<lambda>(q, m). HasPrefix q ''/proj/.goxz-123456789'') (nodes v)))
       = (Returns None,
          [LogWorkingDir ''./.goxz-123456789''],
          [(''/proj/.goxz-123456789'', ModeDir),
           (''/proj/.goxz-123456789/linux_amd64'', ModeDir),
           (''/proj/.goxz-123456789/darwin_amd64'', ModeDir),
           (''/proj/.goxz-123456789/windows_amd64'', ModeDir)])"
    by code_simp
  from e1 obtain gx w1 w2 where p: "prepared [''-work''] resourceWorld = Some (gx, w1, w2)"
    and wk: "gx_work gx"
    by (cases "prepared [''-work''] resourceWorld") auto
  from workspace_lifecycle [OF p stagingBuild_locate [of "gx_workDir gx"]] wk stagingBuild_logged
  have a: "\<exists>sfx d k. digits sfx
         \<and> gx_workDir gx = joinPath (gx_projDir gx) (''.goxz-'' @ sfx)
         \<and> locate w1 (gx_projDir gx) = Some d
         \<and> k = (if d = ''/'' then d else d @ ''/'') @ ''.goxz-'' @ sfx
         \<and> nodes w2 = nodes w1 @ [(k, ModeDir)]
         \<and> prefix (logged w1 @ [LogWorkingDir (gx_workDir gx)])
              (logged (snd (run stagingBuild [''-work''] resourceWorld)))"
    by blast
  from e3 obtain gx' w1' w2' where p': "prepared [] resourceWorld = Some (gx', w1', w2')"
    and nw: "\<not> gx_work gx'"
    by (cases "prepared [] resourceWorld") auto
  from workspace_lifecycle [OF p' stagingBuild_locate [of "gx_workDir gx'"]] nw
  have b: "\<exists>k. locate w1' (gx_workDir gx') = Some k
         \<and> nodes (snd (run stagingBuild [] resourceWorld))
             = filter (\<lambda>(q, m). q \<noteq> k \<and> \<not> HasPrefix q (k @ ''/''))
                 (nodes (snd (buildLoop stagingBuild (builders gx') (started gx' w2'))))"
    by blast
  from a p have a': "\<exists>gx w1 w2 sfx d k. prepared [''-work''] resourceWorld = Some (gx, w1, w2)
         \<and> digits sfx
         \<and> gx_workDir gx = joinPath (gx_projDir gx) (''.goxz-'' @ sfx)
         \<and> locate w1 (gx_projDir gx) = Some d
         \<and> k = (if d = ''/'' then d else d @ ''/'') @ ''.goxz-'' @ sfx
         \<and> nodes w2 = nodes w1 @ [(k, ModeDir)]
         \<and> prefix (logged w1 @ [LogWorkingDir (gx_workDir gx)])
              (logged (snd (run stagingBuild [''-work''] resourceWorld)))"
    by blast
  from b p' have b': "\<exists>gx w1 w2 k. prepared [] resourceWorld = Some (gx, w1, w2)
         \<and> locate w1 (gx_workDir gx) = Some k
         \<and> nodes (snd (run stagingBuild [] resourceWorld))
             = filter (\<lambda>(q, m). q \<noteq> k \<and> \<not> HasPrefix q (k @ ''/''))
                 (nodes (snd (buildLoop stagingBuild (builders gx) (started gx w2))))"
    by blast
  show ?thesis
    by (rule conjI [OF e1 conjI [OF e2 conjI [OF e3 conjI [OF e4 conjI [OF e5 conjI [OF a' b']]]]]])
qed


section \<open>Packages\<close>














end
